theory Spec2Isabelle
  imports Complex_Main
begin

section \<open>Conventions of the embedding\<close>

text \<open>
  The program is the Magic Words dialogue engine: \<^verbatim>\<open>utils/dialogueParser.ts\<close>,
  \<^verbatim>\<open>components/magic-words/ScrollManager.ts\<close>, \<^verbatim>\<open>EmojiManager.ts\<close>,
  \<^verbatim>\<open>AvatarManager.ts\<close>, \<^verbatim>\<open>DialogueLineManager.ts\<close> and the
  \<^verbatim>\<open>DialogueManager\<close> class that owns them.

  \<^item> A JavaScript number is a \<open>real\<close>: arithmetic is exact, there is no rounding, NaN or
    infinity. Where the source divides, the model says what a zero divisor does. The source
    computes in IEEE doubles, which round; the two agree where every value that occurs is an
    integer below \<open>2 ^ 53\<close>, as in the typing runs evaluated below (a typing speed of 10
    and ticks of 100 ms).
  \<^item> What the platform decides is a parameter, the record \<open>Pixi\<close>: the size Pixi measures
    for a text, whether \<open>new Sprite\<close> raises, the height Pixi reports for the mask, and the
    case conversions of \<open>String\<close>.
  \<^item> A JavaScript string is a \<open>string\<close>; \<open>charCodeAt\<close> is \<open>of_char\<close>.
  \<^item> Every class is a record of its fields and every method a function from the record to
    the updated record.
\<close>

section \<open>The token parser (\<^verbatim>\<open>utils/dialogueParser.ts\<close>)\<close>

text \<open>
  \<open>pattern_at\<close> is the regular expression
  \<^verbatim>\<open>/(?:\{([^}]+)\})|(?:\:([^:]+)\:)|(?:\[([^\]]+)\])/g\<close> matched at the head of a string: the
  three alternatives in order, each an opening character, the longest run of characters
  other than the closing one (the run cannot be shortened to reach a closing character,
  so the greedy match is the only one), at least one long, and the closing character. The
  result is the capture group that took part and the length of the match.
  \<open>pattern_exec text i\<close> is \<open>pattern.exec(text)\<close> with \<open>pattern.lastIndex = i\<close>: the leftmost
  match at or after \<open>i\<close>, as \<open>(match.index, pattern.lastIndex, emojiName)\<close>.
  \<open>parseLoop\<close> is the \<open>while\<close> loop of \<open>parseLine\<close>.
\<close>

datatype PartType = PText | PEmoji | PAvatar | PMissingEmoji

record DialoguePart =
  type :: PartType
  content :: string

definition substring :: "string \<Rightarrow> nat \<Rightarrow> nat \<Rightarrow> string" where
  "substring s a b =
     (let a' = min a (length s); b' = min b (length s);
          lo = min a' b'; hi = max a' b'
      in take (hi - lo) (drop lo s))"

definition match_delimited :: "char \<Rightarrow> char \<Rightarrow> string \<Rightarrow> (string \<times> nat) option" where
  "match_delimited opn cls s =
     (case s of
        [] \<Rightarrow> None
      | c # r \<Rightarrow>
          if c = opn then
            (let name = takeWhile (\<lambda>x. x \<noteq> cls) r
             in if name \<noteq> [] \<and> length name < length r
                then Some (name, length name + 2) else None)
          else None)"

definition pattern_at :: "string \<Rightarrow> (string \<times> nat) option" where
  "pattern_at s =
     (case match_delimited CHR ''{'' CHR ''}'' s of
        Some m \<Rightarrow> Some m
      | None \<Rightarrow>
         (case match_delimited CHR '':'' CHR '':'' s of
            Some m \<Rightarrow> Some m
          | None \<Rightarrow> match_delimited CHR ''['' CHR '']'' s))"

function pattern_exec :: "string \<Rightarrow> nat \<Rightarrow> (nat \<times> nat \<times> string) option" where
  "pattern_exec text i =
     (if length text \<le> i then None
      else case pattern_at (drop i text) of
             Some (name, len) \<Rightarrow> Some (i, i + len, name)
           | None \<Rightarrow> pattern_exec text (Suc i))"
  by pat_completeness auto
termination
  by (relation "measure (\<lambda>(text, i). length text - i)") auto


lemma match_delimited_Some:
  "match_delimited opn cls s = Some (name, len) \<longleftrightarrow>
     (\<exists>r. s = opn # name @ cls # r \<and> name \<noteq> [] \<and> cls \<notin> set name \<and> len = length name + 2)"
proof (cases s)
  case Nil
  then show ?thesis by (simp add: match_delimited_def)
next
  case (Cons c r)
  show ?thesis
  proof
    assume m: "match_delimited opn cls s = Some (name, len)"
    then have c: "c = opn" and n: "name = takeWhile (\<lambda>x. x \<noteq> cls) r" and ne: "name \<noteq> []"
      and lt: "length name < length r" and len: "len = length name + 2"
      by (auto simp: match_delimited_def Cons Let_def split: if_splits)
    from n lt have d: "dropWhile (\<lambda>x. x \<noteq> cls) r \<noteq> []"
      by (metis append_Nil2 less_irrefl takeWhile_dropWhile_id)
    then have "hd (dropWhile (\<lambda>x. x \<noteq> cls) r) = cls"
      using hd_dropWhile by (metis (mono_tags, lifting))
    with d have "dropWhile (\<lambda>x. x \<noteq> cls) r = cls # tl (dropWhile (\<lambda>x. x \<noteq> cls) r)"
      by (metis list.collapse)
    then have "r = name @ cls # tl (dropWhile (\<lambda>x. x \<noteq> cls) r)"
      using n by (metis takeWhile_dropWhile_id)
    moreover have "cls \<notin> set name"
      using n by (metis (mono_tags, lifting) set_takeWhileD)
    ultimately show "\<exists>r. s = opn # name @ cls # r \<and> name \<noteq> [] \<and> cls \<notin> set name \<and> len = length name + 2"
      using Cons c ne len by blast
  next
    assume "\<exists>r. s = opn # name @ cls # r \<and> name \<noteq> [] \<and> cls \<notin> set name \<and> len = length name + 2"
    then obtain r' where s: "s = opn # name @ cls # r'" and ne: "name \<noteq> []"
      and ni: "cls \<notin> set name" and len: "len = length name + 2" by blast
    have "takeWhile (\<lambda>x. x \<noteq> cls) (name @ cls # r') = name"
      using ni by (induction name) auto
    then show "match_delimited opn cls s = Some (name, len)"
      using s ne len by (simp add: match_delimited_def Let_def)
  qed
qed

lemma pattern_exec_bounds:
  "pattern_exec t i = Some (idx, nxt, name) \<Longrightarrow> i \<le> idx \<and> idx < nxt \<and> nxt \<le> length t"
proof (induction t i rule: pattern_exec.induct)
  case (1 t i)
  show ?case
  proof (cases "length t \<le> i")
    case True
    with "1.prems" show ?thesis by simp
  next
    case False
    show ?thesis
    proof (cases "pattern_at (drop i t)")
      case None
      with False "1.prems" "1.IH" show ?thesis by (simp split: if_splits) 
    next
      case (Some m)
      obtain nm len where m: "m = (nm, len)" by (cases m)
      from Some m have "\<exists>opn cls. match_delimited opn cls (drop i t) = Some (nm, len)"
        by (auto simp: pattern_at_def split: option.splits)
      then obtain opn cls r where d: "drop i t = opn # nm @ cls # r" and len: "len = length nm + 2"
        by (auto simp: match_delimited_Some)
      have "length (drop i t) = length nm + 2 + length r" by (simp add: d)
      then have "i + len \<le> length t" using len by simp
      with False Some m "1.prems" len show ?thesis by auto
    qed
  qed
qed

function parseLoop :: "string \<Rightarrow> nat \<Rightarrow> DialoguePart list \<Rightarrow> DialoguePart list \<times> nat" where
  "parseLoop text lastIndex parts =
     (case pattern_exec text lastIndex of
        None \<Rightarrow> (parts, lastIndex)
      | Some (index, lastIndex', emojiName) \<Rightarrow>
          parseLoop text lastIndex'
            ((if index > lastIndex
              then parts @ [\<lparr>type = PText, content = substring text lastIndex index\<rparr>]
              else parts) @ [\<lparr>type = PEmoji, content = emojiName\<rparr>]))"
  by pat_completeness auto
termination
proof (relation "measure (\<lambda>(text, lastIndex, parts). length text - lastIndex)")
  show "wf (measure (\<lambda>(text, lastIndex, parts). length text - lastIndex))" by simp
next
  fix t :: string and lastIndex :: nat and parts :: "DialoguePart list" and x2 x y x2a xa ya
  assume "pattern_exec t lastIndex = Some x2" "(x, y) = x2" "(xa, ya) = y"
  then have "pattern_exec t lastIndex = Some (x, xa, ya)" by simp
  from pattern_exec_bounds [OF this]
  show "((t, xa, (if lastIndex < x then parts @ [\<lparr>type = PText, content = substring t lastIndex x\<rparr>] else parts) @ [\<lparr>type = PEmoji, content = ya\<rparr>]), t, lastIndex, parts)
       \<in> measure (\<lambda>(text, lastIndex, parts). length text - lastIndex)"
    by auto
qed

definition parseLine :: "string \<Rightarrow> DialoguePart list" where
  "parseLine text =
     (if text = [] then [\<lparr>type = PText, content = []\<rparr>]
      else
        let (parts, lastIndex) = parseLoop text 0 [];
            parts1 = (if lastIndex < length text
                      then parts @ [\<lparr>type = PText, content = substring text lastIndex (length text)\<rparr>]
                      else parts)
        in if length parts1 = 0 then parts1 @ [\<lparr>type = PText, content = []\<rparr>] else parts1)"


subsection \<open>The characters outside tokens, from the specification\<close>

text \<open>
  The specification's token grammar (section 6): any of \<open>{name}\<close>, \<open>:name:\<close>, \<open>[name]\<close>
  denotes an emoji reference, scanned left to right, the first enclosing delimiter pair
  found winning at each scan position. \<open>isToken\<close>, \<open>tokenLength\<close> and \<open>nonTokenChars\<close> follow
  these words, not the regular expression of the source: a token is an opening delimiter,
  a non-empty name free of the closing delimiter, and the closing delimiter;
  \<open>nonTokenChars\<close> walks the string, skips the token that starts at the current position
  when there is one, and keeps the character otherwise.
\<close>

definition delimiters :: "(char \<times> char) list" where
  "delimiters = [(CHR ''{'', CHR ''}''), (CHR '':'', CHR '':''), (CHR ''['', CHR '']'')]"

definition isToken :: "string \<Rightarrow> bool" where
  "isToken w \<longleftrightarrow>
     3 \<le> length w \<and> (hd w, last w) \<in> set delimiters \<and> last w \<notin> set (butlast (tl w))"

definition tokenLength :: "string \<Rightarrow> nat option" where
  "tokenLength s = find (\<lambda>n. isToken (take n s)) [1..<Suc (length s)]"

lemma find_Some_mem: "find P xs = Some x \<Longrightarrow> x \<in> set xs \<and> P x"
  by (induction xs) (auto split: if_splits)

lemma tokenLength_pos:
  assumes "tokenLength s = Some n"
  shows "0 < n \<and> n \<le> length s"
proof -
  from assms have "n \<in> set [1..<Suc (length s)]"
    unfolding tokenLength_def by (simp only: find_Some_mem)
  then show ?thesis by (simp del: upt_Suc)
qed

function nonTokenChars :: "string \<Rightarrow> string" where
  "nonTokenChars s =
     (case s of
        [] \<Rightarrow> []
      | c # r \<Rightarrow>
          (case tokenLength s of
             Some n \<Rightarrow> nonTokenChars (drop n s)
           | None \<Rightarrow> c # nonTokenChars r))"
  by pat_completeness auto
termination
proof (relation "measure length")
  show "wf (measure length)" by simp
next
  fix s :: string and c r n
  assume "s = c # r" "tokenLength s = Some n"
  then show "(drop n s, s) \<in> measure length"
    using tokenLength_pos [of s n] by auto
qed simp

definition textContent :: "DialoguePart list \<Rightarrow> string" where
  "textContent parts = concat (map content (filter (\<lambda>p. type p = PText) parts))"


lemma isToken_iff:
  "isToken w \<longleftrightarrow>
     (\<exists>opn cls name. (opn, cls) \<in> set delimiters \<and> w = opn # name @ [cls] \<and> name \<noteq> [] \<and> cls \<notin> set name)"
proof
  assume t: "isToken w"
  then have l: "3 \<le> length w" and d: "(hd w, last w) \<in> set delimiters"
    and n: "last w \<notin> set (butlast (tl w))"
    by (simp_all add: isToken_def)
  from l obtain a m where w: "w = a # m" by (cases w) auto
  with l have m: "m \<noteq> []" by auto
  then have m': "m = butlast m @ [last m]" by simp
  from l w have "2 \<le> length m" by simp
  then have "butlast m \<noteq> []" by (cases m rule: rev_cases) auto
  moreover have "w = a # butlast m @ [last m]" using w m' by simp
  moreover have "last w = last m" using w m by simp
  moreover have "hd w = a" using w by simp
  moreover have "butlast (tl w) = butlast m" using w by simp
  ultimately show "\<exists>opn cls name. (opn, cls) \<in> set delimiters \<and> w = opn # name @ [cls] \<and> name \<noteq> [] \<and> cls \<notin> set name"
    using d n by metis
next
  assume "\<exists>opn cls name. (opn, cls) \<in> set delimiters \<and> w = opn # name @ [cls] \<and> name \<noteq> [] \<and> cls \<notin> set name"
  then obtain opn cls name where "(opn, cls) \<in> set delimiters" "w = opn # name @ [cls]"
    "name \<noteq> []" "cls \<notin> set name" by blast
  then show "isToken w"
    by (cases name) (auto simp: isToken_def)
qed

lemma find_snoc: "find P (xs @ [y]) = (case find P xs of None \<Rightarrow> (if P y then Some y else None) | Some x \<Rightarrow> Some x)"
  by (induction xs) auto

lemma find_upt_None:
  "find P [Suc 0..<Suc L] = None \<longleftrightarrow> (\<forall>j. 0 < j \<and> j \<le> L \<longrightarrow> \<not> P j)"
  by (auto simp: find_None_iff simp del: upt_Suc)

lemma find_upt_Some:
  "find P [Suc 0..<Suc L] = Some x \<longleftrightarrow> (0 < x \<and> x \<le> L \<and> P x \<and> (\<forall>j. 0 < j \<and> j < x \<longrightarrow> \<not> P j))"
proof (induction L arbitrary: x)
  case 0
  show ?case by auto
next
  case (Suc L)
  have u: "[Suc 0..<Suc (Suc L)] = [Suc 0..<Suc L] @ [Suc L]" by simp
  show ?case
  proof (cases "find P [Suc 0..<Suc L]")
    case None
    then have n: "\<forall>j. 0 < j \<and> j \<le> L \<longrightarrow> \<not> P j" by (simp only: find_upt_None)
    have "find P [Suc 0..<Suc (Suc L)] = (if P (Suc L) then Some (Suc L) else None)"
      by (simp only: u find_snoc None option.case)
    moreover have "(if P (Suc L) then Some (Suc L) else None) = Some x \<longleftrightarrow>
        (0 < x \<and> x \<le> Suc L \<and> P x \<and> (\<forall>j. 0 < j \<and> j < x \<longrightarrow> \<not> P j))"
      using n by (auto simp: le_Suc_eq less_Suc_eq_le)
    ultimately show ?thesis by simp
  next
    case (Some y)
    then have y: "0 < y \<and> y \<le> L \<and> P y \<and> (\<forall>j. 0 < j \<and> j < y \<longrightarrow> \<not> P j)"
      using Suc.IH [of y] by simp
    have "find P [Suc 0..<Suc (Suc L)] = Some y"
      by (simp only: u find_snoc Some option.case)
    moreover have "Some y = Some x \<longleftrightarrow>
        (0 < x \<and> x \<le> Suc L \<and> P x \<and> (\<forall>j. 0 < j \<and> j < x \<longrightarrow> \<not> P j))"
      using y by (metis le_SucI linorder_neqE_nat option.inject)
    ultimately show ?thesis by simp
  qed
qed

declare pattern_exec.simps [simp del] parseLoop.simps [simp del] nonTokenChars.simps [simp del]

lemma nonTokenChars_Nil [simp]: "nonTokenChars [] = []"
  by (subst nonTokenChars.simps) simp

lemma nonTokenChars_Cons:
  "nonTokenChars (c # r) =
     (case tokenLength (c # r) of
        Some n \<Rightarrow> nonTokenChars (drop n (c # r))
      | None \<Rightarrow> c # nonTokenChars r)"
  by (subst nonTokenChars.simps) simp

lemma pattern_at_Some_iff:
  "pattern_at s = Some m \<longleftrightarrow>
     (\<exists>opn cls. (opn, cls) \<in> set delimiters \<and> match_delimited opn cls s = Some m)"
  by (cases s)
    (auto simp: pattern_at_def delimiters_def match_delimited_def Let_def split: option.splits if_splits)

lemma token_of_prefix:
  assumes "isToken (take j s)" and "j \<le> length s"
  shows "\<exists>opn cls name. (opn, cls) \<in> set delimiters
          \<and> match_delimited opn cls s = Some (name, j)"
proof -
  from assms obtain opn cls name where d: "(opn, cls) \<in> set delimiters"
    and t: "take j s = opn # name @ [cls]" and ne: "name \<noteq> []" and ni: "cls \<notin> set name"
    by (auto simp: isToken_iff)
  have "s = take j s @ drop j s" by simp
  then have s: "s = opn # name @ cls # drop j s" using t by simp
  have "length (take j s) = length name + 2" using t by simp
  then have j: "j = length name + 2" using assms(2) by simp
  have "match_delimited opn cls s = Some (name, length name + 2)"
    using s ne ni by (auto simp: match_delimited_Some)
  with d j show ?thesis by blast
qed

lemma prefix_is_token:
  assumes "(opn, cls) \<in> set delimiters" and "match_delimited opn cls s = Some (name, len)"
  shows "isToken (take len s) \<and> len \<le> length s \<and> 0 < len"
proof -
  from assms(2) obtain r where s: "s = opn # name @ cls # r" and ne: "name \<noteq> []"
    and ni: "cls \<notin> set name" and len: "len = length name + 2"
    by (auto simp: match_delimited_Some)
  have "take len s = opn # name @ [cls]" using s len by simp
  then have "isToken (take len s)" using assms(1) ne ni by (auto simp: isToken_iff)
  moreover have "len \<le> length s" using s len by simp
  ultimately show ?thesis using len by simp
qed

lemma match_delimited_unique:
  assumes "(opn, cls) \<in> set delimiters" and "match_delimited opn cls s = Some (name, len)"
    and "(opn', cls') \<in> set delimiters" and "match_delimited opn' cls' s = Some (name', len')"
  shows "len' = len"
proof -
  from assms(2) assms(4) have "opn' = opn"
    by (auto simp: match_delimited_def split: list.splits if_splits)
  with assms(1) assms(3) have "cls' = cls" by (auto simp: delimiters_def)
  with \<open>opn' = opn\<close> assms(2) assms(4) show ?thesis by simp
qed

lemma tokenLength_pattern_at: "tokenLength s = map_option snd (pattern_at s)"
proof (cases "pattern_at s")
  case None
  have "\<not> isToken (take j s)" if "0 < j \<and> j \<le> length s" for j
  proof
    assume "isToken (take j s)"
    from token_of_prefix [OF this] that obtain opn cls name
      where "(opn, cls) \<in> set delimiters" "match_delimited opn cls s = Some (name, j)" by blast
    then have "pattern_at s = Some (name, j)" by (auto simp: pattern_at_Some_iff)
    with None show False by simp
  qed
  then have "tokenLength s = None" by (simp add: tokenLength_def find_upt_None del: upt_Suc)
  with None show ?thesis by simp
next
  case (Some m)
  obtain name len where m: "m = (name, len)" by (cases m)
  from Some m obtain opn cls where d: "(opn, cls) \<in> set delimiters"
    and md: "match_delimited opn cls s = Some (name, len)"
    by (auto simp: pattern_at_Some_iff)
  note p = prefix_is_token [OF d md]
  have "\<not> isToken (take j s)" if "0 < j \<and> j < len" for j
  proof
    assume "isToken (take j s)"
    moreover have "j \<le> length s" using that p by simp
    ultimately obtain opn' cls' name'
      where "(opn', cls') \<in> set delimiters" "match_delimited opn' cls' s = Some (name', j)"
      using token_of_prefix by blast
    from match_delimited_unique [OF d md this] that show False by simp
  qed
  with p have "tokenLength s = Some len"
    by (simp add: tokenLength_def find_upt_Some del: upt_Suc)
  with Some m show ?thesis by simp
qed

lemma substring_take_drop: "a \<le> b \<Longrightarrow> b \<le> length s \<Longrightarrow> substring s a b = take (b - a) (drop a s)"
  by (simp add: substring_def Let_def min_def max_def)

lemma substring_to_end: "a \<le> length s \<Longrightarrow> substring s a (length s) = drop a s"
  by (simp add: substring_take_drop)

lemma pattern_exec_None:
  "pattern_exec t i = None \<Longrightarrow> nonTokenChars (drop i t) = drop i t"
proof (induction t i rule: pattern_exec.induct)
  case (1 t i)
  show ?case
  proof (cases "length t \<le> i")
    case True
    then show ?thesis by simp
  next
    case False
    from "1.prems" False have pa: "pattern_at (drop i t) = None"
      and rec: "pattern_exec t (Suc i) = None"
      by (auto simp: pattern_exec.simps [of t i] split: option.splits)
    from False have d: "drop i t = t ! i # drop (Suc i) t" by (simp add: Cons_nth_drop_Suc)
    have "tokenLength (t ! i # drop (Suc i) t) = None"
      using pa by (simp add: tokenLength_pattern_at d [symmetric])
    then have "nonTokenChars (drop i t) = t ! i # nonTokenChars (drop (Suc i) t)"
      by (simp add: d nonTokenChars_Cons)
    also have "\<dots> = t ! i # drop (Suc i) t" using "1.IH" [OF False pa rec] by simp
    finally show ?thesis using d by simp
  qed
qed

lemma pattern_exec_Some:
  "pattern_exec t i = Some (idx, nxt, name) \<Longrightarrow>
     nonTokenChars (drop i t) = substring t i idx @ nonTokenChars (drop nxt t)"
proof (induction t i rule: pattern_exec.induct)
  case (1 t i)
  note b = pattern_exec_bounds [OF "1.prems"]
  from "1.prems" have lt: "\<not> length t \<le> i"
    by (auto simp: pattern_exec.simps [of t i] split: if_splits)
  then have d: "drop i t = t ! i # drop (Suc i) t" by (simp add: Cons_nth_drop_Suc)
  show ?case
  proof (cases "pattern_at (drop i t)")
    case None
    with "1.prems" lt have rec: "pattern_exec t (Suc i) = Some (idx, nxt, name)"
      by (simp add: pattern_exec.simps [of t i])
    note b' = pattern_exec_bounds [OF rec]
    have sub: "t ! i # substring t (Suc i) idx = substring t i idx"
    proof -
      have "substring t i idx = take (idx - i) (t ! i # drop (Suc i) t)"
        using b b' by (simp add: substring_take_drop d [symmetric])
      also have "\<dots> = t ! i # take (idx - Suc i) (drop (Suc i) t)"
        using b' by (simp add: take_Cons')
      also have "take (idx - Suc i) (drop (Suc i) t) = substring t (Suc i) idx"
        using b' by (simp add: substring_take_drop)
      finally show ?thesis by simp
    qed
    have "tokenLength (t ! i # drop (Suc i) t) = None"
      using None by (simp add: tokenLength_pattern_at d [symmetric])
    then have "nonTokenChars (drop i t) = t ! i # nonTokenChars (drop (Suc i) t)"
      by (simp add: d nonTokenChars_Cons)
    also have "\<dots> = (t ! i # substring t (Suc i) idx) @ nonTokenChars (drop nxt t)"
      using "1.IH" [OF lt None rec] by simp
    finally show ?thesis by (simp only: sub)
  next
    case (Some m)
    obtain nm len where m: "m = (nm, len)" by (cases m)
    with "1.prems" lt Some have e: "idx = i" "nxt = i + len" "name = nm"
      by (simp_all add: pattern_exec.simps [of t i])
    have "tokenLength (t ! i # drop (Suc i) t) = Some len"
      using Some m by (simp add: tokenLength_pattern_at d [symmetric])
    then have "nonTokenChars (drop i t) = nonTokenChars (drop len (drop i t))"
      by (simp add: d nonTokenChars_Cons)
    then show ?thesis using e by (simp add: substring_def add.commute)
  qed
qed

lemma textContent_Nil [simp]: "textContent [] = []"
  by (simp add: textContent_def)

lemma textContent_append [simp]: "textContent (xs @ ys) = textContent xs @ textContent ys"
  by (simp add: textContent_def)

lemma textContent_text [simp]: "textContent [\<lparr>type = PText, content = c\<rparr>] = c"
  by (simp add: textContent_def)

lemma textContent_emoji [simp]: "textContent [\<lparr>type = PEmoji, content = c\<rparr>] = []"
  by (simp add: textContent_def)

lemma parseLoop_text:
  "textContent (fst (parseLoop t i parts)) @ drop (snd (parseLoop t i parts)) t
     = textContent parts @ nonTokenChars (drop i t)"
proof (induction t i parts rule: parseLoop.induct)
  case (1 t i parts)
  show ?case
  proof (cases "pattern_exec t i")
    case None
    then show ?thesis by (simp add: parseLoop.simps [of t i] pattern_exec_None)
  next
    case (Some m)
    obtain idx nxt name where m: "m = (idx, nxt, name)" by (cases m)
    note b = pattern_exec_bounds [OF Some [unfolded m]]
    have s: "substring t i idx = [] " if "\<not> i < idx"
      using that b by (simp add: substring_def)
    show ?thesis
      using "1.IH" [OF Some [unfolded m] refl refl] Some m pattern_exec_Some [OF Some [unfolded m]] s
      by (simp add: parseLoop.simps [of t i])
  qed
qed

lemma parseLoop_snd_le: "i \<le> length t \<Longrightarrow> snd (parseLoop t i parts) \<le> length t"
proof (induction t i parts rule: parseLoop.induct)
  case (1 t i parts)
  show ?case
  proof (cases "pattern_exec t i")
    case None
    then show ?thesis using "1.prems" by (simp add: parseLoop.simps [of t i])
  next
    case (Some m)
    obtain idx nxt name where m: "m = (idx, nxt, name)" by (cases m)
    note b = pattern_exec_bounds [OF Some [unfolded m]]
    show ?thesis
      using "1.IH" [OF Some [unfolded m] refl refl] Some m b
      by (simp add: parseLoop.simps [of t i])
  qed
qed

lemma parseLine_text: "textContent (parseLine t) = nonTokenChars t"
proof (cases "t = []")
  case True
  then show ?thesis by (simp add: parseLine_def)
next
  case False
  obtain parts lastIndex where p: "parseLoop t 0 [] = (parts, lastIndex)" by (cases "parseLoop t 0 []")
  from parseLoop_text [of t 0 "[]"] p have a: "textContent parts @ drop lastIndex t = nonTokenChars t"
    by simp
  from parseLoop_snd_le [of 0 t "[]"] p have le: "lastIndex \<le> length t" by simp
  show ?thesis
    using False p a le by (auto simp: parseLine_def Let_def substring_to_end)
qed

lemma parseLine_nonempty: "parseLine t \<noteq> []"
  by (auto simp: parseLine_def Let_def split: prod.splits)

text \<open>
  C3. For every input string \<open>t\<close>, \<open>parseLine t\<close> is a non-empty list of segments whose
  text segments, concatenated in order, are exactly the characters of \<open>t\<close> outside the
  \<open>{name}\<close>, \<open>:name:\<close> and \<open>[name]\<close> tokens; for the empty input it is one text segment
  with empty content. \<open>parseLine\<close> has no raising branch and its loop terminates (the
  termination proofs of \<open>pattern_exec\<close> and \<open>parseLoop\<close>), so it returns for every input.
\<close>

theorem parseLine_segments:
  "parseLine t \<noteq> []
   \<and> textContent (parseLine t) = nonTokenChars t
   \<and> parseLine [] = [\<lparr>type = PText, content = []\<rparr>]"
  by (simp add: parseLine_nonempty parseLine_text) (simp add: parseLine_def)

section \<open>ScrollManager\<close>

text \<open>
  \<open>dialogueMask\<close> and \<open>dialogueContainer\<close> are Pixi objects shared with the owner of the
  scroll manager; the record keeps the two properties the class reads and writes,
  the height of the mask and the \<open>y\<close> of the content container. \<open>timerPending\<close> is the
  browser's side of \<open>scrollPauseTimeout\<close>: whether the callback of the last
  \<open>window.setTimeout\<close> is still scheduled.
\<close>

record ScrollManager =
  currentScrollY :: real
  targetScrollY :: real
  dialogueContentHeight :: real
  isPointerDown :: bool
  lastPointerY :: real
  isScrollingPaused :: bool
  scrollPauseTimeout :: "nat option"
  timerPending :: bool
  maskHeight :: real
  dialogueContainerY :: real

definition minScrollY :: real where
  "minScrollY = 0"

definition SCROLL_SMOOTHING :: real where
  "SCROLL_SMOOTHING = 1 / 10"

definition newScrollManager :: "real \<Rightarrow> real \<Rightarrow> ScrollManager" where
  "newScrollManager mh cy =
     \<lparr> currentScrollY = 0, targetScrollY = 0, dialogueContentHeight = 0,
       isPointerDown = False, lastPointerY = 0, isScrollingPaused = False,
       scrollPauseTimeout = None, timerPending = False,
       maskHeight = mh, dialogueContainerY = cy \<rparr>"

definition getMaxScroll :: "ScrollManager \<Rightarrow> real" where
  "getMaxScroll s = max 0 (dialogueContentHeight s - maskHeight s)"

definition pauseAutoScroll :: "ScrollManager \<Rightarrow> ScrollManager" where
  "pauseAutoScroll s =
     (let s1 = s\<lparr>isScrollingPaused := True\<rparr>
      in if scrollPauseTimeout s1 \<noteq> None
         then s1\<lparr>scrollPauseTimeout := None, timerPending := False\<rparr>
         else s1)"

definition resumeAutoScrollAfterDelay :: "ScrollManager \<Rightarrow> ScrollManager" where
  "resumeAutoScrollAfterDelay s =
     s\<lparr>scrollPauseTimeout := Some (case scrollPauseTimeout s of None \<Rightarrow> 1 | Some t \<Rightarrow> Suc t),
       timerPending := True\<rparr>"

text \<open>The callback scheduled by \<open>resumeAutoScrollAfterDelay\<close>, run by the browser.\<close>

definition timeoutFires :: "ScrollManager \<Rightarrow> ScrollManager" where
  "timeoutFires s =
     (if timerPending s then s\<lparr>isScrollingPaused := False, timerPending := False\<rparr> else s)"

definition onPointerDown :: "real \<Rightarrow> ScrollManager \<Rightarrow> ScrollManager" where
  "onPointerDown globalY s = pauseAutoScroll (s\<lparr>isPointerDown := True, lastPointerY := globalY\<rparr>)"

definition onPointerMove :: "real \<Rightarrow> ScrollManager \<Rightarrow> ScrollManager" where
  "onPointerMove globalY s =
     (if \<not> isPointerDown s then s
      else let deltaY = globalY - lastPointerY s;
               s1 = s\<lparr>targetScrollY := targetScrollY s + deltaY\<rparr>;
               s2 = s1\<lparr>targetScrollY := max (min (targetScrollY s1) minScrollY) (- getMaxScroll s1)\<rparr>
           in s2\<lparr>lastPointerY := globalY\<rparr>)"

definition onPointerUp :: "ScrollManager \<Rightarrow> ScrollManager" where
  "onPointerUp s =
     (if \<not> isPointerDown s then s
      else resumeAutoScrollAfterDelay (s\<lparr>isPointerDown := False\<rparr>))"

definition updateScroll :: "real \<Rightarrow> ScrollManager \<Rightarrow> ScrollManager" where
  "updateScroll deltaMS s =
     (let scrollDiff = targetScrollY s - currentScrollY s;
          s1 = s\<lparr>currentScrollY := currentScrollY s + scrollDiff * SCROLL_SMOOTHING\<rparr>;
          s2 = (if \<bar>scrollDiff\<bar> < 1 / 10 then s1\<lparr>currentScrollY := targetScrollY s1\<rparr> else s1)
      in s2\<lparr>dialogueContainerY := currentScrollY s2\<rparr>)"

definition scrollToBottom :: "ScrollManager \<Rightarrow> ScrollManager" where
  "scrollToBottom s =
     (if isScrollingPaused s then s else s\<lparr>targetScrollY := - getMaxScroll s\<rparr>)"

definition updateContentHeight :: "real \<Rightarrow> ScrollManager \<Rightarrow> ScrollManager" where
  "updateContentHeight height s =
     (let s1 = s\<lparr>dialogueContentHeight := height\<rparr>;
          s2 = s1\<lparr>targetScrollY := max (min (targetScrollY s1) minScrollY) (- getMaxScroll s1)\<rparr>
      in if \<not> isScrollingPaused s2 then scrollToBottom s2 else s2)"

definition scrollToPosition :: "real \<Rightarrow> ScrollManager \<Rightarrow> ScrollManager" where
  "scrollToPosition position s =
     (let maxScroll = getMaxScroll s;
          targetY = - position + maskHeight s / 3;
          targetY' = max (min targetY minScrollY) (- maxScroll)
      in resumeAutoScrollAfterDelay (pauseAutoScroll (s\<lparr>targetScrollY := targetY'\<rparr>)))"

text \<open>
  \<open>DialogueManager.forceScrollToBottom\<close> writes the private flag of the scroll manager
  around a call of \<open>scrollToBottom\<close>.
\<close>

definition forceScrollToBottomSM :: "ScrollManager \<Rightarrow> ScrollManager" where
  "forceScrollToBottomSM s =
     (let wasPaused = isScrollingPaused s;
          s1 = s\<lparr>isScrollingPaused := False\<rparr>;
          s2 = scrollToBottom s1
      in s2\<lparr>isScrollingPaused := wasPaused\<rparr>)"

text \<open>
  The mask is redrawn only by \<open>DialogueManager.updateMask\<close>: once before the scroll
  manager exists, and at the start of \<open>resize\<close>, which calls \<open>updateContentHeight\<close> before
  any other method of the scroll manager.
\<close>

definition remaskThenUpdate :: "real \<Rightarrow> real \<Rightarrow> real \<Rightarrow> ScrollManager \<Rightarrow> ScrollManager" where
  "remaskThenUpdate mh cy height s =
     updateContentHeight height (s\<lparr>maskHeight := mh, dialogueContainerY := cy\<rparr>)"

definition targetInBounds :: "ScrollManager \<Rightarrow> bool" where
  "targetInBounds s \<longleftrightarrow>
     - max 0 (dialogueContentHeight s - maskHeight s) \<le> targetScrollY s \<and> targetScrollY s \<le> 0"

inductive reachableScroll :: "ScrollManager \<Rightarrow> bool" where
  rs_new: "reachableScroll (newScrollManager mh cy)"
| rs_down: "reachableScroll s \<Longrightarrow> reachableScroll (onPointerDown y s)"
| rs_move: "reachableScroll s \<Longrightarrow> reachableScroll (onPointerMove y s)"
| rs_up: "reachableScroll s \<Longrightarrow> reachableScroll (onPointerUp s)"
| rs_timeout: "reachableScroll s \<Longrightarrow> reachableScroll (timeoutFires s)"
| rs_tick: "reachableScroll s \<Longrightarrow> reachableScroll (updateScroll d s)"
| rs_bottom: "reachableScroll s \<Longrightarrow> reachableScroll (scrollToBottom s)"
| rs_force: "reachableScroll s \<Longrightarrow> reachableScroll (forceScrollToBottomSM s)"
| rs_height: "reachableScroll s \<Longrightarrow> reachableScroll (updateContentHeight h s)"
| rs_position: "reachableScroll s \<Longrightarrow> reachableScroll (scrollToPosition p s)"
| rs_remask: "reachableScroll s \<Longrightarrow> reachableScroll (remaskThenUpdate mh cy h s)"

section \<open>ScrollManager: the target offset stays within the scroll range\<close>

lemma clamp_in_bounds:
  fixes t m :: real
  assumes "0 \<le> m"
  shows "- m \<le> max (min t 0) (- m) \<and> max (min t 0) (- m) \<le> 0"
  using assms by auto

lemma getMaxScroll_nonneg: "0 \<le> getMaxScroll s"
  by (simp add: getMaxScroll_def)

lemma targetInBounds_alt:
  "targetInBounds s \<longleftrightarrow> - getMaxScroll s \<le> targetScrollY s \<and> targetScrollY s \<le> 0"
  by (simp add: targetInBounds_def getMaxScroll_def)

lemma pauseAutoScroll_bounds [simp]: "targetInBounds (pauseAutoScroll s) = targetInBounds s"
  by (simp add: pauseAutoScroll_def targetInBounds_def Let_def)

lemma resumeAutoScrollAfterDelay_bounds [simp]:
  "targetInBounds (resumeAutoScrollAfterDelay s) = targetInBounds s"
  by (simp add: resumeAutoScrollAfterDelay_def targetInBounds_def)

lemma timeoutFires_bounds [simp]: "targetInBounds (timeoutFires s) = targetInBounds s"
  by (simp add: timeoutFires_def targetInBounds_def)

lemma onPointerDown_bounds [simp]: "targetInBounds (onPointerDown y s) = targetInBounds s"
  by (simp add: onPointerDown_def) (simp add: targetInBounds_def)

lemma onPointerUp_bounds [simp]: "targetInBounds (onPointerUp s) = targetInBounds s"
  by (simp add: onPointerUp_def) (simp add: targetInBounds_def)

lemma updateScroll_bounds [simp]: "targetInBounds (updateScroll d s) = targetInBounds s"
  by (simp add: updateScroll_def targetInBounds_def Let_def)

lemma onPointerMove_dragging_bounds:
  "isPointerDown s \<Longrightarrow> targetInBounds (onPointerMove y s)"
  by (simp add: onPointerMove_def targetInBounds_def getMaxScroll_def minScrollY_def Let_def)

lemma onPointerMove_bounds: "targetInBounds s \<Longrightarrow> targetInBounds (onPointerMove y s)"
  by (cases "isPointerDown s") (simp_all add: onPointerMove_dragging_bounds, simp add: onPointerMove_def)

lemma scrollToBottom_unpaused_bounds:
  "\<not> isScrollingPaused s \<Longrightarrow> targetInBounds (scrollToBottom s)"
  by (simp add: scrollToBottom_def targetInBounds_def getMaxScroll_def)

lemma scrollToBottom_bounds: "targetInBounds s \<Longrightarrow> targetInBounds (scrollToBottom s)"
  by (cases "isScrollingPaused s") (simp_all add: scrollToBottom_unpaused_bounds, simp add: scrollToBottom_def)

lemma updateContentHeight_bounds: "targetInBounds (updateContentHeight h s)"
  by (simp add: updateContentHeight_def scrollToBottom_def targetInBounds_def getMaxScroll_def
      minScrollY_def Let_def)

lemma scrollToPosition_bounds: "targetInBounds (scrollToPosition p s)"
proof -
  have "targetInBounds (s\<lparr>targetScrollY := max (min (- p + maskHeight s / 3) minScrollY) (- getMaxScroll s)\<rparr>)"
    by (simp add: targetInBounds_def getMaxScroll_def minScrollY_def)
  then show ?thesis
    by (simp add: scrollToPosition_def Let_def)
qed

lemma forceScrollToBottomSM_bounds: "targetInBounds (forceScrollToBottomSM s)"
  by (simp add: forceScrollToBottomSM_def scrollToBottom_def targetInBounds_def getMaxScroll_def Let_def)

lemma reachableScroll_bounds: "reachableScroll s \<Longrightarrow> targetInBounds s"
proof (induction rule: reachableScroll.induct)
  case (rs_new mh cy)
  show ?case by (simp add: newScrollManager_def targetInBounds_def)
next
  case (rs_move s y)
  then show ?case by (simp add: onPointerMove_bounds)
next
  case (rs_bottom s)
  then show ?case by (simp add: scrollToBottom_bounds)
next
  case (rs_remask s mh cy h)
  show ?case by (simp add: remaskThenUpdate_def updateContentHeight_bounds)
qed (simp_all add: forceScrollToBottomSM_bounds updateContentHeight_bounds scrollToPosition_bounds)

text \<open>
  C6. In every reachable state of the scroll manager, each of the four operations that
  write the target offset (a pointer drag, a content-height update, scroll-to-bottom and
  scroll-to-position) leaves \<open>targetScrollY\<close> in
  \<open>[- max 0 (contentHeight - viewportHeight), 0]\<close>.
\<close>

theorem scroll_target_clamped:
  assumes "reachableScroll s"
  shows "targetInBounds (onPointerMove y s) \<and> targetInBounds (updateContentHeight h s)
       \<and> targetInBounds (scrollToBottom s) \<and> targetInBounds (scrollToPosition p s)"
  using reachableScroll_bounds [OF assms]
  by (simp add: onPointerMove_bounds updateContentHeight_bounds scrollToBottom_bounds
      scrollToPosition_bounds)

text \<open>
  A drag in progress on content taller than the viewport: content height 500, viewport
  200, pointer pressed at 100 and moved to 140, with the target at the bottom (-300).
\<close>

theorem scroll_target_clamped_witness:
  "reachableScroll (onPointerDown 100 (updateContentHeight 500 (newScrollManager 200 15)))
   \<and> targetInBounds (onPointerMove 140 (onPointerDown 100 (updateContentHeight 500 (newScrollManager 200 15))))
   \<and> targetInBounds (updateContentHeight 100 (onPointerDown 100 (updateContentHeight 500 (newScrollManager 200 15))))
   \<and> targetInBounds (scrollToBottom (onPointerDown 100 (updateContentHeight 500 (newScrollManager 200 15))))
   \<and> targetInBounds (scrollToPosition 250 (onPointerDown 100 (updateContentHeight 500 (newScrollManager 200 15))))
   \<and> targetScrollY (onPointerMove 140 (onPointerDown 100 (updateContentHeight 500 (newScrollManager 200 15)))) = - 260"
proof -
  have r: "reachableScroll (onPointerDown 100 (updateContentHeight 500 (newScrollManager 200 15)))"
    by (intro rs_down rs_height rs_new)
  have v: "targetScrollY (onPointerMove 140 (onPointerDown 100 (updateContentHeight 500 (newScrollManager 200 15)))) = - 260"
    by (simp add: onPointerMove_def onPointerDown_def pauseAutoScroll_def updateContentHeight_def
        scrollToBottom_def newScrollManager_def getMaxScroll_def minScrollY_def Let_def)
  from scroll_target_clamped [OF r, of 140 100 250] r v show ?thesis by simp
qed

section \<open>Pixi display objects and text styles\<close>

datatype FontSize = FontNumber real | FontOther

record TextStyle =
  fontSize :: FontSize
  fill :: int
  fontWeight :: string
  otherProps :: string

datatype StyleArg = PlainStyle TextStyle | StyleInstance nat

datatype StyleRef = OwnStyle TextStyle | SharedStyle nat

type_synonym styleHeap = "nat \<Rightarrow> TextStyle"

datatype Texture = EMPTY | Loaded nat

datatype ObjKind = TextKind | SpriteKind

record DisplayObject =
  kind :: ObjKind
  visible :: bool
  objText :: string
  style :: "StyleRef option"
  texture :: "Texture option"
  objScale :: real
  objWidth :: real
  objHeight :: real
  posX :: real
  posY :: real
  anchorX :: real
  anchorY :: real

text \<open>
  The platform. \<open>graphicsHeight w h\<close> is the \<open>height\<close> Pixi reports for a \<open>Graphics\<close> that
  holds one rectangle drawn with width \<open>w\<close> and height \<open>h\<close> (its local bounds, which are
  empty for some rectangles); \<open>toLowerCase\<close> and \<open>toUpperCase\<close> are the methods of \<open>String\<close>.
\<close>

record Pixi =
  measureWidth :: "TextStyle \<Rightarrow> string \<Rightarrow> real"
  measureHeight :: "TextStyle \<Rightarrow> string \<Rightarrow> real"
  spriteThrows :: "Texture \<Rightarrow> bool"
  graphicsHeight :: "real \<Rightarrow> real \<Rightarrow> real"
  toLowerCase :: "string \<Rightarrow> string"
  toUpperCase :: "string \<Rightarrow> string"

definition newText :: "string \<Rightarrow> StyleArg \<Rightarrow> DisplayObject" where
  "newText t arg =
     \<lparr> kind = TextKind, visible = True, objText = t,
       style = Some (case arg of PlainStyle d \<Rightarrow> OwnStyle d | StyleInstance a \<Rightarrow> SharedStyle a),
       texture = None, objScale = 1, objWidth = 0, objHeight = 0,
       posX = 0, posY = 0, anchorX = 0, anchorY = 0 \<rparr>"

definition newSprite :: "Texture \<Rightarrow> DisplayObject" where
  "newSprite t =
     \<lparr> kind = SpriteKind, visible = True, objText = [], style = None,
       texture = Some t, objScale = 1, objWidth = 0, objHeight = 0,
       posX = 0, posY = 0, anchorX = 0, anchorY = 0 \<rparr>"

definition resolveStyle :: "styleHeap \<Rightarrow> DisplayObject \<Rightarrow> TextStyle option" where
  "resolveStyle h obj =
     (case style obj of
        None \<Rightarrow> None
      | Some (OwnStyle d) \<Rightarrow> Some d
      | Some (SharedStyle a) \<Rightarrow> Some (h a))"


text \<open>
  An assignment through \<open>obj.style\<close>: to the object's own style, or to the shared
  instance in the heap.
\<close>

definition writeStyle ::
  "(TextStyle \<Rightarrow> TextStyle) \<Rightarrow> styleHeap \<Rightarrow> DisplayObject \<Rightarrow> styleHeap \<times> DisplayObject" where
  "writeStyle f h obj =
     (case style obj of
        None \<Rightarrow> (h, obj)
      | Some (OwnStyle d) \<Rightarrow> (h, obj\<lparr>style := Some (OwnStyle (f d))\<rparr>)
      | Some (SharedStyle a) \<Rightarrow> (h(a := f (h a)), obj))"

definition textureMissing :: "Texture option \<Rightarrow> bool" where
  "textureMissing t \<longleftrightarrow> t = None \<or> t = Some EMPTY"

datatype jsError = TypeError | SpriteError

section \<open>EmojiManager\<close>

record EmojiManager =
  emojiTextures :: "string \<Rightarrow> Texture option"
  em_emojiSize :: real
  em_missingEmojiStyle :: StyleArg

definition stripColons :: "string \<Rightarrow> string" where
  "stripColons s = filter (\<lambda>c. c \<noteq> CHR '':'') s"

definition getSubstitutedEmojiName :: "EmojiManager \<Rightarrow> string \<Rightarrow> string" where
  "getSubstitutedEmojiName em emojiName =
     (let baseName = stripColons emojiName
      in if (baseName = ''affirmative'' \<or> baseName = ''win'')
            \<and> (emojiTextures em ''satisfied'' \<noteq> None \<or> emojiTextures em '':satisfied:'' \<noteq> None)
         then ''satisfied''
         else baseName)"

definition missingEmojiText :: "EmojiManager \<Rightarrow> string \<Rightarrow> DisplayObject" where
  "missingEmojiText em emojiName = newText (''['' @ emojiName @ '']'') (em_missingEmojiStyle em)"

definition emojiSprite :: "EmojiManager \<Rightarrow> Pixi \<Rightarrow> string \<Rightarrow> Texture option \<Rightarrow> DisplayObject" where
  "emojiSprite em px emojiName tex =
     (case tex of
        None \<Rightarrow> missingEmojiText em emojiName
      | Some EMPTY \<Rightarrow> missingEmojiText em emojiName
      | Some t \<Rightarrow>
          if spriteThrows px t then missingEmojiText em emojiName
          else (newSprite t)\<lparr>objWidth := em_emojiSize em, objHeight := em_emojiSize em,
                              anchorX := 0, anchorY := 1 / 2\<rparr>)"

definition createEmojiObject :: "EmojiManager \<Rightarrow> Pixi \<Rightarrow> string \<Rightarrow> jsError + DisplayObject" where
  "createEmojiObject em px emojiName =
     (if emojiName = [] then Inr (newText ''[?]'' (em_missingEmojiStyle em))
      else
        let tex = emojiTextures em emojiName
        in if textureMissing tex then
             (let baseEmojiName = stripColons emojiName
              in if baseEmojiName = [] then Inr (missingEmojiText em emojiName)
                 else
                   let substitutedBaseName = getSubstitutedEmojiName em baseEmojiName;
                       substitutedName = '':'' @ substitutedBaseName @ '':'';
                       tex1 = emojiTextures em substitutedName;
                       tex2 = (if textureMissing tex1 then emojiTextures em substitutedBaseName else tex1)
                   in Inr (emojiSprite em px emojiName tex2))
           else Inr (emojiSprite em px emojiName tex))"

section \<open>AvatarManager\<close>

record AvatarManager =
  avatarTextures :: "string \<Rightarrow> Texture option"
  am_avatarSize :: real
  am_avatarPadding :: real

text \<open>\<open>a || b\<close> on values that are an object or \<open>undefined\<close>.\<close>

definition orElse :: "'a option \<Rightarrow> 'a option \<Rightarrow> 'a option" where
  "orElse a b = (case a of None \<Rightarrow> b | Some v \<Rightarrow> Some v)"

definition avatarSpriteOf :: "AvatarManager \<Rightarrow> Pixi \<Rightarrow> Texture \<Rightarrow> DisplayObject option" where
  "avatarSpriteOf am px t =
     (if spriteThrows px t then None
      else Some ((newSprite t)\<lparr>objWidth := am_avatarSize am, objHeight := am_avatarSize am\<rparr>))"

definition getAvatar :: "AvatarManager \<Rightarrow> Pixi \<Rightarrow> string \<Rightarrow> DisplayObject option" where
  "getAvatar am px nm =
     (let tex = avatarTextures am nm
      in if textureMissing tex then
           (let altTexture =
                  orElse (avatarTextures am (toLowerCase px nm))
                    (orElse (avatarTextures am (toUpperCase px nm))
                       (avatarTextures am (toUpperCase px (take 1 nm) @ toLowerCase px (drop 1 nm))))
            in case altTexture of
                 None \<Rightarrow> None
               | Some EMPTY \<Rightarrow> None
               | Some t \<Rightarrow> avatarSpriteOf am px t)
         else (case tex of None \<Rightarrow> None | Some t \<Rightarrow> avatarSpriteOf am px t))"

section \<open>DialogueLineManager\<close>

datatype EmojiPosition = EmojiInline | EmojiLeft

record DialogueStyles =
  textStyle :: StyleArg
  charTextStyle :: StyleArg
  missingEmojiStyle :: StyleArg
  emojiSize :: real
  avatarSize :: real
  avatarPadding :: real
  lineSpacing :: real
  dialoguePadding :: real
  typingSpeed :: real
  emojiPosition :: "EmojiPosition option"

record DialogueLineManager =
  styles :: DialogueStyles
  emojiManager :: EmojiManager
  avatarManager :: AvatarManager

text \<open>A dialogue line as it arrives from the payload: either property may be missing.\<close>

record DialogueLine =
  name :: "string option"
  text' :: "string option"

text \<open>A child appended to the content container by the layout loop.\<close>

record PlacedNode =
  nodePart :: nat
  nodeText :: "string option"
  nodeX :: real
  nodeY :: real
  nodeWidth :: real

record Bubble =
  isRightAligned :: bool
  colorIndex :: nat
  bubbleColor :: int
  rectWidth :: real
  rectHeight :: real
  rectRadius :: real
  tailPoints :: "(real \<times> real) list"
  bubbleContainerX :: real

record LineRenderData =
  parts :: "DialoguePart list"
  characterText :: DisplayObject
  partObjects :: "DisplayObject list"
  speakerName :: "string option"
  containerY :: real
  containerHeight :: real
  bubble :: "Bubble option"
  contentNodes :: "PlacedNode list"
  avatarNode :: "DisplayObject option"
  leftEmojiNodes :: "DisplayObject list"
  leftEmojiOrigin :: "(real \<times> real) option"

text \<open>\<open>v || d\<close> on a value that is a string or \<open>undefined\<close>: the empty string is falsy.\<close>

definition orDefault :: "string option \<Rightarrow> string \<Rightarrow> string" where
  "orDefault v d = (case v of None \<Rightarrow> d | Some s \<Rightarrow> if s = [] then d else s)"

definition createPartObject :: "DialogueLineManager \<Rightarrow> Pixi \<Rightarrow> DialoguePart \<Rightarrow> DisplayObject list" where
  "createPartObject m px part =
     (if type part = PText then [newText (content part) (textStyle (styles m))]
      else if type part = PEmoji then
        (case createEmojiObject (emojiManager m) px (content part) of
           Inr obj \<Rightarrow> [obj]
         | Inl e \<Rightarrow> [newText ''[Error]'' (textStyle (styles m))])
      else [])"

definition createLineObjects :: "DialogueLineManager \<Rightarrow> Pixi \<Rightarrow> DialogueLine option \<Rightarrow> LineRenderData" where
  "createLineObjects m px line =
     (let nm = orDefault (case line of None \<Rightarrow> None | Some l \<Rightarrow> name l) ''Unknown'';
          txt = orDefault (case line of None \<Rightarrow> None | Some l \<Rightarrow> text' l) [];
          ct = newText (nm @ '':'') (charTextStyle (styles m));
          ps = parseLine txt
      in \<lparr> parts = ps, characterText = ct,
           partObjects = concat (map (createPartObject m px) ps),
           speakerName = None, containerY = 0, containerHeight = 0, bubble = None,
           contentNodes = [], avatarNode = None, leftEmojiNodes = [], leftEmojiOrigin = None \<rparr>)"

subsection \<open>Speaker side and colour\<close>

fun nameHashLoop :: "string \<Rightarrow> nat \<Rightarrow> nat" where
  "nameHashLoop [] nameHash = nameHash"
| "nameHashLoop (c # cs) nameHash = nameHashLoop cs (nameHash + of_char c)"

definition speakerColors :: "int list" where
  "speakerColors = [3447003, 3066993, 15158332, 15965202, 10181046, 1752220]"

subsection \<open>Layout\<close>

record LayoutConsts =
  scaleFactor :: real
  bubblePadding :: real
  maxContentWidth :: real
  currentLineHeight :: real

record LayoutState =
  currentX :: real
  currentY :: real
  lineWidth :: real
  contentChildren :: "PlacedNode list"

definition fontSizeOr16 :: "styleHeap \<Rightarrow> StyleArg \<Rightarrow> real" where
  "fontSizeOr16 h arg =
     (case fontSize (case arg of PlainStyle d \<Rightarrow> d | StyleInstance a \<Rightarrow> h a) of
        FontNumber n \<Rightarrow> n
      | FontOther \<Rightarrow> 16)"

definition getLineHeight :: "DialogueLineManager \<Rightarrow> styleHeap \<Rightarrow> real" where
  "getLineHeight m h =
     (let textFontSize = fontSizeOr16 h (textStyle (styles m));
          charFontSize = fontSizeOr16 h (charTextStyle (styles m))
      in max (max textFontSize charFontSize) (emojiSize (styles m)))"

definition white :: int where
  "white = 16777215"

text \<open>
  \<open>characterText.scale.set(scaleFactor)\<close>, then the two assignments through
  \<open>characterText.style\<close>.
\<close>

definition styleCharacterText :: "real \<Rightarrow> styleHeap \<Rightarrow> DisplayObject \<Rightarrow> styleHeap \<times> DisplayObject" where
  "styleCharacterText sf h ct =
     (case writeStyle (\<lambda>d. d\<lparr>fill := white\<rparr>) h (ct\<lparr>objScale := sf\<rparr>) of
        (h', ct') \<Rightarrow> writeStyle (\<lambda>d. d\<lparr>fontWeight := ''bold''\<rparr>) h' ct')"

text \<open>
  In Pixi 7 a \<open>Text\<close> is a \<open>Sprite\<close> (it has the \<open>anchor\<close> the scenes set on their texts), so
  \<open>instanceof Sprite\<close> holds of every part object and \<open>instanceof Text\<close> of those of kind
  \<open>TextKind\<close>. The \<open>width\<close> and \<open>height\<close> of a text are its measured size times its scale; a
  sprite reads back the size assigned to it.
\<close>

definition displayWidth :: "Pixi \<Rightarrow> styleHeap \<Rightarrow> DisplayObject \<Rightarrow> real" where
  "displayWidth px h obj =
     (if kind obj = TextKind then
        (case resolveStyle h obj of
           None \<Rightarrow> 0
         | Some d \<Rightarrow> objScale obj * measureWidth px d (objText obj))
      else objWidth obj)"

definition displayHeight :: "Pixi \<Rightarrow> styleHeap \<Rightarrow> DisplayObject \<Rightarrow> real" where
  "displayHeight px h obj =
     (if kind obj = TextKind then
        (case resolveStyle h obj of
           None \<Rightarrow> 0
         | Some d \<Rightarrow> objScale obj * measureHeight px d (objText obj))
      else objHeight obj)"

text \<open>The loop "Apply scaling to all parts", one index at a time.\<close>

definition scalePart ::
  "real \<Rightarrow> real \<Rightarrow> bool \<Rightarrow> nat \<Rightarrow> styleHeap \<times> DisplayObject list \<times> nat list
     \<Rightarrow> styleHeap \<times> DisplayObject list \<times> nat list" where
  "scalePart sf targetSize emojisLeft index acc =
     (case acc of (h, objs, leftEmojis) \<Rightarrow>
        if \<not> index < length objs then acc
        else
          let partObject = objs ! index
          in if kind partObject = TextKind then
               (case writeStyle (\<lambda>d. d\<lparr>fill := white\<rparr>) h (partObject\<lparr>objScale := sf\<rparr>) of
                  (h', obj') \<Rightarrow> (h', objs[index := obj'], leftEmojis))
             else
               (h, objs[index := partObject\<lparr>objWidth := targetSize, objHeight := targetSize,
                                             anchorX := 0, anchorY := 1 / 2\<rparr>],
                if emojisLeft then leftEmojis @ [index] else leftEmojis))"

definition wrapIfNeeded :: "LayoutConsts \<Rightarrow> real \<Rightarrow> LayoutState \<Rightarrow> LayoutState" where
  "wrapIfNeeded k w st =
     (if currentX st + w > maxContentWidth k \<and> currentX st > bubblePadding k
      then st\<lparr>currentX := bubblePadding k,
              currentY := currentY st + currentLineHeight k + 2 * scaleFactor k\<rparr>
      else st)"

definition advanceX :: "LayoutConsts \<Rightarrow> real \<Rightarrow> LayoutState \<Rightarrow> LayoutState" where
  "advanceX k w st =
     (let st1 = st\<lparr>currentX := currentX st + w + 5 * scaleFactor k\<rparr>
      in st1\<lparr>lineWidth := max (lineWidth st1) (currentX st1)\<rparr>)"

definition placeWord :: "LayoutConsts \<Rightarrow> nat \<Rightarrow> real \<Rightarrow> string \<Rightarrow> LayoutState \<Rightarrow> LayoutState" where
  "placeWord k index wordWidth word st =
     (let st1 = wrapIfNeeded k wordWidth st;
          st2 = st1\<lparr>contentChildren := contentChildren st1 @
                  [\<lparr>nodePart = index, nodeText = Some word, nodeX = currentX st1,
                    nodeY = currentY st1, nodeWidth = wordWidth\<rparr>]\<rparr>
      in advanceX k wordWidth st2)"

fun placeWords :: "LayoutConsts \<Rightarrow> nat \<Rightarrow> (string \<Rightarrow> real) \<Rightarrow> string list \<Rightarrow> LayoutState \<Rightarrow> LayoutState" where
  "placeWords k index wordWidthOf [] st = st"
| "placeWords k index wordWidthOf (word # ws) st =
     placeWords k index wordWidthOf ws (placeWord k index (wordWidthOf word) word st)"

text \<open>\<open>s.split(" ")\<close>: the pieces between single spaces, empty pieces included.\<close>

fun splitSpaces :: "string \<Rightarrow> string list" where
  "splitSpaces [] = [[]]"
| "splitSpaces (c # cs) =
     (if c = CHR '' '' then [] # splitSpaces cs
      else (case splitSpaces cs of
              [] \<Rightarrow> [[c]]
            | w # ws \<Rightarrow> (c # w) # ws))"

text \<open>
  The width of a word as the loop measures it: a temporary \<open>Text\<close> in the style of the
  part object, scaled by \<open>scaleFactor\<close>.
\<close>

definition measuredWidth :: "Pixi \<Rightarrow> styleHeap \<Rightarrow> real \<Rightarrow> DisplayObject \<Rightarrow> string \<Rightarrow> real" where
  "measuredWidth px h sf partObject word =
     (case resolveStyle h partObject of
        None \<Rightarrow> 0
      | Some d \<Rightarrow> sf * measureWidth px d word)"

definition placeEmoji ::
  "LayoutConsts \<Rightarrow> Pixi \<Rightarrow> styleHeap \<Rightarrow> nat \<Rightarrow> DisplayObject list \<times> LayoutState
     \<Rightarrow> DisplayObject list \<times> LayoutState" where
  "placeEmoji k px h index acc =
     (case acc of (objs, st) \<Rightarrow>
        let partObject = objs ! index;
            emojiWidth = displayWidth px h partObject;
            st1 = wrapIfNeeded k emojiWidth st;
            obj' = partObject\<lparr>posX := currentX st1,
                               posY := currentY st1 + currentLineHeight k / 2\<rparr>;
            st2 = st1\<lparr>contentChildren := contentChildren st1 @
                    [\<lparr>nodePart = index, nodeText = None, nodeX = currentX st1,
                      nodeY = currentY st1 + currentLineHeight k / 2,
                      nodeWidth = emojiWidth\<rparr>]\<rparr>
        in (objs[index := obj'], advanceX k emojiWidth st2))"

text \<open>The loop "Process each part for layout", one part at a time.\<close>

definition layoutPart ::
  "LayoutConsts \<Rightarrow> Pixi \<Rightarrow> styleHeap \<Rightarrow> bool \<Rightarrow> nat \<times> DialoguePart
     \<Rightarrow> DisplayObject list \<times> LayoutState \<Rightarrow> DisplayObject list \<times> LayoutState" where
  "layoutPart k px h emojisLeft ip acc =
     (case ip of (index, part) \<Rightarrow>
      case acc of (objs, st) \<Rightarrow>
        if \<not> index < length objs then acc
        else
          let partObject = objs ! index
          in if type part = PText \<and> kind partObject = TextKind then
               (objs, placeWords k index (measuredWidth px h (scaleFactor k) partObject)
                        (splitSpaces (content part)) st)
             else if \<not> emojisLeft \<and> type part = PEmoji then
               placeEmoji k px h index acc
             else acc)"

text \<open>The clones stacked to the left of a left-aligned bubble.\<close>

fun cloneLeftEmojis ::
  "Pixi \<Rightarrow> real \<Rightarrow> DisplayObject list \<Rightarrow> nat list \<Rightarrow> real \<Rightarrow> jsError + DisplayObject list" where
  "cloneLeftEmojis px sf objs [] emojiY = Inr []"
| "cloneLeftEmojis px sf objs (i # is) emojiY =
     (let emoji = objs ! i
      in case texture emoji of
           None \<Rightarrow> Inl TypeError
         | Some t \<Rightarrow>
             if spriteThrows px t then Inl SpriteError
             else
               (case cloneLeftEmojis px sf objs is (emojiY + objHeight emoji + 5 * sf) of
                  Inl e \<Rightarrow> Inl e
                | Inr rest \<Rightarrow>
                    Inr ((newSprite t)\<lparr>objWidth := objWidth emoji, objHeight := objHeight emoji,
                                         posX := 0, posY := emojiY\<rparr> # rest)))"

definition scaleFactorFor :: "real \<Rightarrow> real" where
  "scaleFactorFor availableWidth = (let baseWidth = 800 in min 1 (max (8 / 10) (availableWidth / baseWidth)))"

definition bubblePaddingFor :: "real \<Rightarrow> real" where
  "bubblePaddingFor availableWidth = 15 * scaleFactorFor availableWidth"

definition maxContentWidthFor :: "real \<Rightarrow> real" where
  "maxContentWidthFor availableWidth =
     (let bubbleWidth = min (availableWidth * (8 / 10)) 500
      in bubbleWidth - bubblePaddingFor availableWidth * 2)"

definition shouldPositionEmojisLeft :: "DialogueLineManager \<Rightarrow> bool" where
  "shouldPositionEmojisLeft m \<longleftrightarrow> emojiPosition (styles m) = Some EmojiLeft"

definition scaleParts ::
  "DialogueLineManager \<Rightarrow> real \<Rightarrow> nat \<Rightarrow> styleHeap \<times> DisplayObject list \<times> nat list
     \<Rightarrow> styleHeap \<times> DisplayObject list \<times> nat list" where
  "scaleParts m sf n acc =
     fold (scalePart sf (emojiSize (styles m) * sf) (shouldPositionEmojisLeft m)) [0..<n] acc"

definition layoutParts ::
  "LayoutConsts \<Rightarrow> Pixi \<Rightarrow> styleHeap \<Rightarrow> bool \<Rightarrow> DialoguePart list
     \<Rightarrow> DisplayObject list \<times> LayoutState \<Rightarrow> DisplayObject list \<times> LayoutState" where
  "layoutParts k px h emojisLeft ps acc =
     fold (layoutPart k px h emojisLeft) (zip [0..<length ps] ps) acc"

text \<open>
  \<open>updateLineLayout\<close> after its two style-writing steps: \<open>h1\<close> is the heap when the height
  of the speaker label and the line height are read, \<open>h2\<close> the heap when the words are
  measured.
\<close>

definition layoutCore ::
  "DialogueLineManager \<Rightarrow> Pixi \<Rightarrow> styleHeap \<Rightarrow> styleHeap \<Rightarrow> LineRenderData \<Rightarrow> real
     \<Rightarrow> DisplayObject \<Rightarrow> DisplayObject list \<Rightarrow> nat list
     \<Rightarrow> jsError + (styleHeap \<times> LineRenderData \<times> real)" where
  "layoutCore m px h1 h2 lineData availableWidth ct objs1 leftEmojis =
     (let sf = scaleFactorFor availableWidth;
          pad = bubblePaddingFor availableWidth;
          bubbleRadius = 10 * sf;
          avatarSz = avatarSize (styles m) * sf;
          spk = orDefault (speakerName lineData) ''Unknown'';
          nameHash = nameHashLoop spk 0;
          rightAligned = (nameHash mod 2 = 0);
          cIndex = nameHash mod length speakerColors;
          color = speakerColors ! cIndex;
          avatar = getAvatar (avatarManager m) px spk;
          lineHeight = getLineHeight m h1 * sf;
          k = \<lparr>scaleFactor = sf, bubblePadding = pad,
               maxContentWidth = maxContentWidthFor availableWidth,
               currentLineHeight = lineHeight\<rparr>;
          (objs2, st) =
             layoutParts k px h2 (shouldPositionEmojisLeft m) (parts lineData)
               (objs1, \<lparr>currentX = pad, currentY = displayHeight px h1 ct + 5 * sf, lineWidth = 0,
                        contentChildren = []\<rparr>);
          totalContentWidth = min (lineWidth st) (maxContentWidth k);
          totalContentHeight = currentY st + lineHeight + pad;
          avatarOffset = (if avatar \<noteq> None then avatarSz + 10 * sf else 0);
          emojiOffset = (if shouldPositionEmojisLeft m \<and> leftEmojis \<noteq> []
                         then emojiSize (styles m) * sf + 10 else 0);
          w = totalContentWidth + pad * 2;
          placedAvatar = map_option (\<lambda>a. a\<lparr>posX := 5 * sf, posY := totalContentHeight / 2 - avatarSz / 2\<rparr>) avatar;
          finalHeight = totalContentHeight + 15 * sf;
          laidOut = lineData\<lparr>characterText := ct, partObjects := objs2,
                             contentNodes := contentChildren st, avatarNode := placedAvatar,
                             containerHeight := finalHeight\<rparr>
      in if rightAligned then
           Inr (h2,
                laidOut\<lparr>bubble := Some \<lparr>isRightAligned = True, colorIndex = cIndex, bubbleColor = color,
                           rectWidth = w, rectHeight = totalContentHeight, rectRadius = bubbleRadius,
                           tailPoints = [(w, totalContentHeight - 15 * sf),
                                         (w + 10 * sf, totalContentHeight),
                                         (w, totalContentHeight)],
                           bubbleContainerX = availableWidth - (w + 15 * sf)\<rparr>,
                         leftEmojiNodes := [], leftEmojiOrigin := None\<rparr>,
                finalHeight)
         else
           (case (if shouldPositionEmojisLeft m \<and> leftEmojis \<noteq> []
                  then cloneLeftEmojis px sf objs2 leftEmojis pad else Inr []) of
              Inl e \<Rightarrow> Inl e
            | Inr clones \<Rightarrow>
                Inr (h2,
                     laidOut\<lparr>bubble := Some \<lparr>isRightAligned = False, colorIndex = cIndex, bubbleColor = color,
                                rectWidth = w, rectHeight = totalContentHeight, rectRadius = bubbleRadius,
                                tailPoints = [(0, totalContentHeight - 15 * sf),
                                              (- 10 * sf, totalContentHeight),
                                              (0, totalContentHeight)],
                                bubbleContainerX = 15 * sf + avatarOffset + emojiOffset\<rparr>,
                              leftEmojiNodes := clones,
                              leftEmojiOrigin := (if shouldPositionEmojisLeft m \<and> leftEmojis \<noteq> []
                                                  then Some (avatarOffset + 5 * sf, pad) else None)\<rparr>,
                     finalHeight)))"

definition updateLineLayout ::
  "DialogueLineManager \<Rightarrow> Pixi \<Rightarrow> styleHeap \<Rightarrow> LineRenderData \<Rightarrow> real
     \<Rightarrow> jsError + (styleHeap \<times> LineRenderData \<times> real)" where
  "updateLineLayout m px h0 lineData availableWidth =
     (case styleCharacterText (scaleFactorFor availableWidth) h0 (characterText lineData) of
        (h1, ct) \<Rightarrow>
          (case scaleParts m (scaleFactorFor availableWidth) (length (parts lineData))
                  (h1, partObjects lineData, []) of
             (h2, objs1, leftEmojis) \<Rightarrow>
               layoutCore m px h1 h2 lineData availableWidth ct objs1 leftEmojis))"

definition createDialogueLine ::
  "DialogueLineManager \<Rightarrow> Pixi \<Rightarrow> styleHeap \<Rightarrow> DialogueLine option \<Rightarrow> real
     \<Rightarrow> jsError + (styleHeap \<times> LineRenderData)" where
  "createDialogueLine m px h line availableWidth =
     (let lineData = createLineObjects m px line
      in case line of
           None \<Rightarrow> Inl TypeError
         | Some l \<Rightarrow>
             (case updateLineLayout m px h (lineData\<lparr>speakerName := name l\<rparr>) availableWidth of
                Inl e \<Rightarrow> Inl e
              | Inr (h', laidOut, finalHeight) \<Rightarrow> Inr (h', laidOut)))"

section \<open>DialogueLineManager: what the layout keeps of every part object\<close>

text \<open>
  Neither loop of \<open>updateLineLayout\<close> changes the class of a part object, its texture, or
  the shared style instance it points to.
\<close>

definition sharedAddr :: "DisplayObject \<Rightarrow> nat option" where
  "sharedAddr obj = (case style obj of Some (SharedStyle a) \<Rightarrow> Some a | _ \<Rightarrow> None)"

definition shape :: "DisplayObject \<Rightarrow> ObjKind \<times> Texture option \<times> nat option" where
  "shape obj = (kind obj, texture obj, sharedAddr obj)"

definition spriteOk :: "Pixi \<Rightarrow> ObjKind \<times> Texture option \<times> nat option \<Rightarrow> bool" where
  "spriteOk px sh \<longleftrightarrow>
     fst sh = TextKind \<or> (\<exists>t. fst (snd sh) = Some t \<and> \<not> spriteThrows px t)"

lemma shape_simps [simp]:
  "shape (obj\<lparr>objScale := a\<rparr>) = shape obj"
  "shape (obj\<lparr>objWidth := a\<rparr>) = shape obj"
  "shape (obj\<lparr>objHeight := a\<rparr>) = shape obj"
  "shape (obj\<lparr>posX := a\<rparr>) = shape obj"
  "shape (obj\<lparr>posY := a\<rparr>) = shape obj"
  "shape (obj\<lparr>anchorX := a\<rparr>) = shape obj"
  "shape (obj\<lparr>anchorY := a\<rparr>) = shape obj"
  "shape (obj\<lparr>visible := b\<rparr>) = shape obj"
  "shape (obj\<lparr>objText := t\<rparr>) = shape obj"
  by (simp_all add: shape_def sharedAddr_def)

lemma writeStyle_shape [simp]: "shape (snd (writeStyle f h obj)) = shape obj"
  by (simp add: writeStyle_def shape_def sharedAddr_def split: option.splits StyleRef.splits)

lemma writeStyle_heap:
  "fst (writeStyle f h obj) = (case sharedAddr obj of None \<Rightarrow> h | Some a \<Rightarrow> h(a := f (h a)))"
  by (simp add: writeStyle_def sharedAddr_def split: option.splits StyleRef.splits)

lemma writeStyle_obj_heap_free: "snd (writeStyle f h obj) = snd (writeStyle f h' obj)"
  by (simp add: writeStyle_def split: option.splits StyleRef.splits)

lemma map_shape_update:
  "shape x = shape (objs ! i) \<Longrightarrow> map shape (objs[i := x]) = map shape objs"
  by (metis list_update_id map_update)

lemma scalePart_shapes:
  "map shape (fst (snd (scalePart sf ts el i (h, objs, le)))) = map shape objs"
  by (simp add: scalePart_def Let_def map_shape_update split: prod.splits)
    (metis map_shape_update shape_simps(1) snd_conv writeStyle_shape)

lemma scalePart_lefts:
  assumes "\<forall>j\<in>set le. j < length objs \<and> fst (shape (objs ! j)) \<noteq> TextKind"
  shows "\<forall>j\<in>set (snd (snd (scalePart sf ts el i (h, objs, le)))).
           j < length objs \<and> fst (shape (objs ! j)) \<noteq> TextKind"
  using assms by (auto simp: scalePart_def Let_def shape_def split: prod.splits)

lemma fold_scalePart_shapes:
  "map shape (fst (snd (fold (scalePart sf ts el) is (h, objs, le)))) = map shape objs"
proof (induction "is" arbitrary: h objs le)
  case Nil
  show ?case by simp
next
  case (Cons i "is")
  obtain h' objs' le' where s: "scalePart sf ts el i (h, objs, le) = (h', objs', le')"
    by (cases "scalePart sf ts el i (h, objs, le)")
  have "map shape objs' = map shape objs" using scalePart_shapes [of sf ts el i h objs le] s by simp
  then show ?case using Cons.IH [of h' objs' le'] s by simp
qed

lemma shapes_nth:
  "map shape xs = map shape ys \<Longrightarrow> j < length ys \<Longrightarrow> shape (xs ! j) = shape (ys ! j)"
  by (metis length_map nth_map)

lemma shapes_length: "map shape xs = map shape ys \<Longrightarrow> length xs = length ys"
  by (metis length_map)

lemma fold_scalePart_lefts:
  assumes "\<forall>j\<in>set le. j < length objs \<and> fst (shape (objs ! j)) \<noteq> TextKind"
  shows "\<forall>j\<in>set (snd (snd (fold (scalePart sf ts el) is (h, objs, le)))).
           j < length objs \<and> fst (shape (objs ! j)) \<noteq> TextKind"
  using assms
proof (induction "is" arbitrary: h objs le)
  case Nil
  then show ?case by simp
next
  case (Cons i "is")
  obtain h' objs' le' where s: "scalePart sf ts el i (h, objs, le) = (h', objs', le')"
    by (cases "scalePart sf ts el i (h, objs, le)")
  have sh: "map shape objs' = map shape objs" using scalePart_shapes [of sf ts el i h objs le] s by simp
  have "\<forall>j\<in>set le'. j < length objs \<and> fst (shape (objs ! j)) \<noteq> TextKind"
    using scalePart_lefts [OF Cons.prems, of sf ts el i h] s by simp
  then have "\<forall>j\<in>set le'. j < length objs' \<and> fst (shape (objs' ! j)) \<noteq> TextKind"
    using sh by (metis shapes_length shapes_nth)
  from Cons.IH [OF this, of h'] s
  have "\<forall>j\<in>set (snd (snd (fold (scalePart sf ts el) (i # is) (h, objs, le)))).
           j < length objs' \<and> fst (shape (objs' ! j)) \<noteq> TextKind"
    by simp
  then show ?case using sh by (metis shapes_length shapes_nth)
qed

lemma placeEmoji_shapes:
  "i < length objs \<Longrightarrow> map shape (fst (placeEmoji k px h i (objs, st))) = map shape objs"
  by (simp add: placeEmoji_def Let_def map_shape_update)

lemma layoutPart_shapes:
  "map shape (fst (layoutPart k px h el ip (objs, st))) = map shape objs"
  by (cases ip) (simp add: layoutPart_def Let_def placeEmoji_shapes)

lemma fold_layoutPart_shapes:
  "map shape (fst (fold (layoutPart k px h el) ips (objs, st))) = map shape objs"
proof (induction ips arbitrary: objs st)
  case Nil
  show ?case by simp
next
  case (Cons ip ips)
  obtain objs' st' where s: "layoutPart k px h el ip (objs, st) = (objs', st')"
    by (cases "layoutPart k px h el ip (objs, st)")
  have "map shape objs' = map shape objs" using layoutPart_shapes [of k px h el ip objs st] s by simp
  then show ?case using Cons.IH [of objs' st'] s by simp
qed

subsection \<open>Creating a line never raises\<close>

lemma createEmojiObject_Inr: "\<exists>obj. createEmojiObject em px n = Inr obj \<and> spriteOk px (shape obj)"
  by (auto simp: createEmojiObject_def emojiSprite_def missingEmojiText_def newText_def newSprite_def
      spriteOk_def shape_def Let_def split: option.splits Texture.splits)

lemma createPartObject_ok: "\<forall>obj\<in>set (createPartObject m px part). spriteOk px (shape obj)"
proof (cases "type part = PEmoji")
  case True
  obtain obj where "createEmojiObject (emojiManager m) px (content part) = Inr obj"
    and "spriteOk px (shape obj)"
    using createEmojiObject_Inr by blast
  with True show ?thesis by (simp add: createPartObject_def)
next
  case False
  then show ?thesis by (simp add: createPartObject_def newText_def spriteOk_def shape_def)
qed

lemma createLineObjects_ok:
  "\<forall>obj\<in>set (partObjects (createLineObjects m px line)). spriteOk px (shape obj)"
  using createPartObject_ok by (auto simp: createLineObjects_def Let_def)

lemma cloneLeftEmojis_Inr:
  assumes "\<forall>j\<in>set is. j < length objs \<and> fst (shape (objs ! j)) \<noteq> TextKind"
    and "\<forall>obj\<in>set objs. spriteOk px (shape obj)"
  shows "\<exists>clones. cloneLeftEmojis px sf objs is y = Inr clones"
  using assms(1)
proof (induction "is" arbitrary: y)
  case Nil
  show ?case by simp
next
  case (Cons i "is")
  from Cons.prems have i: "i < length objs" "fst (shape (objs ! i)) \<noteq> TextKind" by simp_all
  with assms(2) have "spriteOk px (shape (objs ! i))" by simp
  with i obtain t where t: "texture (objs ! i) = Some t" "\<not> spriteThrows px t"
    by (auto simp: spriteOk_def shape_def)
  from Cons.IH [of "y + objHeight (objs ! i) + 5 * sf"] Cons.prems
  obtain rest where "cloneLeftEmojis px sf objs is (y + objHeight (objs ! i) + 5 * sf) = Inr rest"
    by auto
  with t show ?case by (simp add: Let_def)
qed

lemma layoutCore_fields:
  assumes "layoutCore m px h1 h2 lineData aw ct objs1 lefts = Inr (h', laidOut, fh)"
  shows "h' = h2"
    and "parts laidOut = parts lineData"
    and "speakerName laidOut = speakerName lineData"
    and "characterText laidOut = ct"
    and "containerHeight laidOut = fh"
    and "\<exists>b. bubble laidOut = Some b
           \<and> isRightAligned b = (nameHashLoop (orDefault (speakerName lineData) ''Unknown'') 0 mod 2 = 0)
           \<and> colorIndex b = nameHashLoop (orDefault (speakerName lineData) ''Unknown'') 0 mod length speakerColors
           \<and> bubbleColor b = speakerColors ! colorIndex b"
  using assms
  by (auto simp: layoutCore_def Let_def split: if_splits sum.splits prod.splits)

lemma layoutCore_layout:
  assumes "layoutCore m px h1 h2 lineData aw ct objs1 lefts = Inr (h', laidOut, fh)"
  shows "(partObjects laidOut,
          contentNodes laidOut) =
         (fst (layoutParts
                 \<lparr>scaleFactor = scaleFactorFor aw, bubblePadding = bubblePaddingFor aw,
                   maxContentWidth = maxContentWidthFor aw,
                   currentLineHeight = getLineHeight m h1 * scaleFactorFor aw\<rparr>
                 px h2 (shouldPositionEmojisLeft m) (parts lineData)
                 (objs1, \<lparr>currentX = bubblePaddingFor aw,
                          currentY = displayHeight px h1 ct + 5 * scaleFactorFor aw,
                          lineWidth = 0, contentChildren = []\<rparr>)),
          contentChildren (snd (layoutParts
                 \<lparr>scaleFactor = scaleFactorFor aw, bubblePadding = bubblePaddingFor aw,
                   maxContentWidth = maxContentWidthFor aw,
                   currentLineHeight = getLineHeight m h1 * scaleFactorFor aw\<rparr>
                 px h2 (shouldPositionEmojisLeft m) (parts lineData)
                 (objs1, \<lparr>currentX = bubblePaddingFor aw,
                          currentY = displayHeight px h1 ct + 5 * scaleFactorFor aw,
                          lineWidth = 0, contentChildren = []\<rparr>))))"
  using assms
  by (auto simp: layoutCore_def Let_def split: if_splits sum.splits prod.splits)

lemma layoutCore_Inr:
  assumes "\<forall>j\<in>set lefts. j < length objs1 \<and> fst (shape (objs1 ! j)) \<noteq> TextKind"
    and "\<forall>obj\<in>set objs1. spriteOk px (shape obj)"
  shows "\<exists>r. layoutCore m px h1 h2 lineData aw ct objs1 lefts = Inr r"
proof -
  define k where "k = \<lparr>scaleFactor = scaleFactorFor aw, bubblePadding = bubblePaddingFor aw,
                   maxContentWidth = maxContentWidthFor aw,
                   currentLineHeight = getLineHeight m h1 * scaleFactorFor aw\<rparr>"
  define st0 where "st0 = \<lparr>currentX = bubblePaddingFor aw,
                          currentY = displayHeight px h1 ct + 5 * scaleFactorFor aw,
                          lineWidth = 0, contentChildren = []\<rparr>"
  obtain objs2 st2 where lp: "layoutParts k px h2 (shouldPositionEmojisLeft m) (parts lineData) (objs1, st0) = (objs2, st2)"
    by (cases "layoutParts k px h2 (shouldPositionEmojisLeft m) (parts lineData) (objs1, st0)")
  have sh: "map shape objs2 = map shape objs1"
    using fold_layoutPart_shapes [of k px h2 "shouldPositionEmojisLeft m" "zip [0..<length (parts lineData)] (parts lineData)" objs1 st0]
      lp by (simp add: layoutParts_def)
  have l: "\<forall>j\<in>set lefts. j < length objs2 \<and> fst (shape (objs2 ! j)) \<noteq> TextKind"
    using assms(1) sh by (metis shapes_length shapes_nth)
  have "\<forall>obj\<in>set objs2. spriteOk px (shape obj)"
  proof
    fix obj assume "obj \<in> set objs2"
    then have "shape obj \<in> set (map shape objs1)" using sh by (metis image_eqI list.set_map)
    with assms(2) show "spriteOk px (shape obj)" by auto
  qed
  from cloneLeftEmojis_Inr [OF l this]
  obtain clones where "cloneLeftEmojis px (scaleFactorFor aw) objs2 lefts (bubblePaddingFor aw) = Inr clones"
    by blast
  then show ?thesis
    using lp by (simp add: layoutCore_def Let_def k_def [symmetric] st0_def [symmetric])
qed

lemma scaleParts_ok:
  assumes "scaleParts m sf n (h1, objs, []) = (h2, objs1, lefts)"
  shows "map shape objs1 = map shape objs"
    and "\<forall>j\<in>set lefts. j < length objs1 \<and> fst (shape (objs1 ! j)) \<noteq> TextKind"
proof -
  show sh: "map shape objs1 = map shape objs"
    using fold_scalePart_shapes [of sf "emojiSize (styles m) * sf" "shouldPositionEmojisLeft m" "[0..<n]" h1 objs "[]"]
      assms by (simp add: scaleParts_def)
  have "\<forall>j\<in>set lefts. j < length objs \<and> fst (shape (objs ! j)) \<noteq> TextKind"
    using fold_scalePart_lefts [of "[]" objs sf "emojiSize (styles m) * sf" "shouldPositionEmojisLeft m" "[0..<n]" h1]
      assms by (simp add: scaleParts_def)
  then show "\<forall>j\<in>set lefts. j < length objs1 \<and> fst (shape (objs1 ! j)) \<noteq> TextKind"
    using sh by (metis shapes_length shapes_nth)
qed

lemma updateLineLayout_Inr:
  assumes "\<forall>obj\<in>set (partObjects lineData). spriteOk px (shape obj)"
  shows "\<exists>r. updateLineLayout m px h0 lineData aw = Inr r"
proof -
  obtain h1 ct where c: "styleCharacterText (scaleFactorFor aw) h0 (characterText lineData) = (h1, ct)"
    by (cases "styleCharacterText (scaleFactorFor aw) h0 (characterText lineData)")
  obtain h2 objs1 lefts where
    s: "scaleParts m (scaleFactorFor aw) (length (parts lineData)) (h1, partObjects lineData, []) = (h2, objs1, lefts)"
    by (cases "scaleParts m (scaleFactorFor aw) (length (parts lineData)) (h1, partObjects lineData, [])")
  note ok = scaleParts_ok [OF s]
  have "\<forall>obj\<in>set objs1. spriteOk px (shape obj)"
  proof
    fix obj assume "obj \<in> set objs1"
    then have "shape obj \<in> set (map shape (partObjects lineData))"
      using ok(1) by (metis image_eqI list.set_map)
    with assms show "spriteOk px (shape obj)" by auto
  qed
  from layoutCore_Inr [OF ok(2) this] show ?thesis
    by (simp add: updateLineLayout_def c s)
qed

lemma updateLineLayout_fields:
  assumes "updateLineLayout m px h0 lineData aw = Inr (h', laidOut, fh)"
  shows "parts laidOut = parts lineData"
    and "speakerName laidOut = speakerName lineData"
    and "characterText laidOut = snd (styleCharacterText (scaleFactorFor aw) h0 (characterText lineData))"
    and "containerHeight laidOut = fh"
    and "\<exists>b. bubble laidOut = Some b
           \<and> isRightAligned b = (nameHashLoop (orDefault (speakerName lineData) ''Unknown'') 0 mod 2 = 0)
           \<and> colorIndex b = nameHashLoop (orDefault (speakerName lineData) ''Unknown'') 0 mod length speakerColors
           \<and> bubbleColor b = speakerColors ! colorIndex b"
proof -
  obtain h1 ct where c: "styleCharacterText (scaleFactorFor aw) h0 (characterText lineData) = (h1, ct)"
    by (cases "styleCharacterText (scaleFactorFor aw) h0 (characterText lineData)")
  obtain h2 objs1 lefts where
    s: "scaleParts m (scaleFactorFor aw) (length (parts lineData)) (h1, partObjects lineData, []) = (h2, objs1, lefts)"
    by (cases "scaleParts m (scaleFactorFor aw) (length (parts lineData)) (h1, partObjects lineData, [])")
  from assms have lc: "layoutCore m px h1 h2 lineData aw ct objs1 lefts = Inr (h', laidOut, fh)"
    by (simp add: updateLineLayout_def c s)
  note f = layoutCore_fields [OF lc]
  show "parts laidOut = parts lineData" by (rule f(2))
  show "speakerName laidOut = speakerName lineData" by (rule f(3))
  show "characterText laidOut = snd (styleCharacterText (scaleFactorFor aw) h0 (characterText lineData))"
    using f(4) c by simp
  show "containerHeight laidOut = fh" by (rule f(5))
  show "\<exists>b. bubble laidOut = Some b
           \<and> isRightAligned b = (nameHashLoop (orDefault (speakerName lineData) ''Unknown'') 0 mod 2 = 0)
           \<and> colorIndex b = nameHashLoop (orDefault (speakerName lineData) ''Unknown'') 0 mod length speakerColors
           \<and> bubbleColor b = speakerColors ! colorIndex b"
    by (rule f(6))
qed

lemma createDialogueLine_Inr:
  "\<exists>h' laidOut. createDialogueLine m px h (Some l) aw = Inr (h', laidOut)"
proof -
  have "\<forall>obj\<in>set (partObjects ((createLineObjects m px (Some l))\<lparr>speakerName := name l\<rparr>)).
          spriteOk px (shape obj)"
    using createLineObjects_ok [of m px "Some l"] by simp
  from updateLineLayout_Inr [OF this, of m h aw]
  show ?thesis by (auto simp: createDialogueLine_def Let_def split: prod.splits)
qed

lemma writeStyle_objText [simp]: "objText (snd (writeStyle f h obj)) = objText obj"
  by (simp add: writeStyle_def split: option.splits StyleRef.splits)

lemma writeStyle_visible [simp]: "visible (snd (writeStyle f h obj)) = visible obj"
  by (simp add: writeStyle_def split: option.splits StyleRef.splits)

lemma styleCharacterText_alt:
  "styleCharacterText sf h ct =
     writeStyle (\<lambda>d. d\<lparr>fontWeight := ''bold''\<rparr>)
       (fst (writeStyle (\<lambda>d. d\<lparr>fill := white\<rparr>) h (ct\<lparr>objScale := sf\<rparr>)))
       (snd (writeStyle (\<lambda>d. d\<lparr>fill := white\<rparr>) h (ct\<lparr>objScale := sf\<rparr>)))"
  by (simp add: styleCharacterText_def split: prod.splits)

lemma styleCharacterText_text [simp]: "objText (snd (styleCharacterText sf h ct)) = objText ct"
  by (simp add: styleCharacterText_alt)

lemma styleCharacterText_visible [simp]: "visible (snd (styleCharacterText sf h ct)) = visible ct"
  by (simp add: styleCharacterText_alt)

lemma createDialogueLine_fields:
  assumes "createDialogueLine m px h (Some l) aw = Inr (h', laidOut)"
  shows "parts laidOut = parseLine (orDefault (text' l) [])"
    and "speakerName laidOut = name l"
    and "objText (characterText laidOut) = orDefault (name l) ''Unknown'' @ '':''"
    and "\<exists>b. bubble laidOut = Some b
           \<and> isRightAligned b = (nameHashLoop (orDefault (name l) ''Unknown'') 0 mod 2 = 0)
           \<and> colorIndex b = nameHashLoop (orDefault (name l) ''Unknown'') 0 mod length speakerColors
           \<and> bubbleColor b = speakerColors ! colorIndex b"
proof -
  from assms obtain fh where
    u: "updateLineLayout m px h ((createLineObjects m px (Some l))\<lparr>speakerName := name l\<rparr>) aw = Inr (h', laidOut, fh)"
    by (auto simp: createDialogueLine_def Let_def split: sum.splits)
  note f = updateLineLayout_fields [OF u]
  show "parts laidOut = parseLine (orDefault (text' l) [])"
    using f(1) by (simp add: createLineObjects_def Let_def)
  show "speakerName laidOut = name l" using f(2) by simp
  show "objText (characterText laidOut) = orDefault (name l) ''Unknown'' @ '':''"
    using f(3) by (simp add: createLineObjects_def Let_def newText_def)
  show "\<exists>b. bubble laidOut = Some b
           \<and> isRightAligned b = (nameHashLoop (orDefault (name l) ''Unknown'') 0 mod 2 = 0)
           \<and> colorIndex b = nameHashLoop (orDefault (name l) ''Unknown'') 0 mod length speakerColors
           \<and> bubbleColor b = speakerColors ! colorIndex b"
    using f(5) by simp
qed

section \<open>DialogueLineManager: a long word\<close>

subsection \<open>A sample configuration\<close>

text \<open>
  One font for the three styles, every character 12.5 pixels wide and every text 20 pixels
  high before scaling, one emoji texture, no avatar textures, inline emojis; a mask as high
  as its rectangle, and of height 0 when the rectangle has a negative side.
\<close>

definition demoStyle :: TextStyle where
  "demoStyle = \<lparr>fontSize = FontNumber 24, fill = 0, fontWeight = ''normal'', otherProps = ''Arial''\<rparr>"

text \<open>The case conversions of the sample platform, on the letters A to Z.\<close>

definition asciiLowerChar :: "char \<Rightarrow> char" where
  "asciiLowerChar c =
     (if of_char CHR ''A'' \<le> (of_char c :: nat) \<and> (of_char c :: nat) \<le> of_char CHR ''Z''
      then char_of (of_char c + 32 :: nat) else c)"

definition asciiUpperChar :: "char \<Rightarrow> char" where
  "asciiUpperChar c =
     (if of_char CHR ''a'' \<le> (of_char c :: nat) \<and> (of_char c :: nat) \<le> of_char CHR ''z''
      then char_of (of_char c - 32 :: nat) else c)"

definition demoPixi :: Pixi where
  "demoPixi = \<lparr>measureWidth = (\<lambda>d s. real (length s) * (25 / 2)), measureHeight = (\<lambda>d s. 20),
               spriteThrows = (\<lambda>t. False),
               graphicsHeight = (\<lambda>w h. if w < 0 \<or> h < 0 then 0 else h),
               toLowerCase = map asciiLowerChar, toUpperCase = map asciiUpperChar\<rparr>"

definition demoStyles :: DialogueStyles where
  "demoStyles = \<lparr>textStyle = PlainStyle demoStyle, charTextStyle = PlainStyle demoStyle,
     missingEmojiStyle = PlainStyle demoStyle, emojiSize = 20, avatarSize = 40, avatarPadding = 20,
     lineSpacing = 8, dialoguePadding = 15, typingSpeed = 10, emojiPosition = Some EmojiInline\<rparr>"

definition demoManager :: DialogueLineManager where
  "demoManager = \<lparr>styles = demoStyles,
     emojiManager = \<lparr>emojiTextures = [''smile'' \<mapsto> Loaded 1], em_emojiSize = 20,
                      em_missingEmojiStyle = PlainStyle demoStyle\<rparr>,
     avatarManager = \<lparr>avatarTextures = Map.empty, am_avatarSize = 40, am_avatarPadding = 20\<rparr>\<rparr>"

definition demoHeap :: styleHeap where
  "demoHeap = (\<lambda>a. demoStyle)"

text \<open>
  C2. The word wrap of \<open>updateLineLayout\<close> in
  \<^verbatim>\<open>components/magic-words/DialogueLineManager.ts\<close> moves a word to a new line only when
  something stands on the current line, and never breaks a word. A line whose text is one
  word of 40 characters, laid out at an available width of 160: the content width is 104,
  ten characters (100) fit and eleven (110) do not, and the word is placed as one node from
  12 to 412, where four pieces of ten characters were to be placed. And at the available
  width 800, where nothing is scaled, a word of 80 characters is one node from 15 to 1015,
  beyond the content width 470 and beyond the available width.
\<close>

theorem long_word_is_not_broken:
  "(case createDialogueLine demoManager demoPixi demoHeap
           (Some \<lparr>name = Some ''Bo'', text' = Some (replicate 40 CHR ''a'')\<rparr>) 160 of
      Inr (h, l) \<Rightarrow> map (\<lambda>n. (nodeText n, nodeX n, nodeX n + nodeWidth n)) (contentNodes l)
    | Inl e \<Rightarrow> [])
   = [(Some (replicate 40 CHR ''a''), 12, 412)]
   \<and> maxContentWidthFor 160 = 104
   \<and> scaleFactorFor 160 * measureWidth demoPixi demoStyle (replicate 10 CHR ''a'') \<le> maxContentWidthFor 160
   \<and> maxContentWidthFor 160 < scaleFactorFor 160 * measureWidth demoPixi demoStyle (replicate 11 CHR ''a'')
   \<and> (case createDialogueLine demoManager demoPixi demoHeap
           (Some \<lparr>name = Some ''Bo'', text' = Some (replicate 80 CHR ''a'')\<rparr>) 800 of
      Inr (h, l) \<Rightarrow> map (\<lambda>n. (nodeText n, nodeX n, nodeX n + nodeWidth n)) (contentNodes l)
    | Inl e \<Rightarrow> [])
   = [(Some (replicate 80 CHR ''a''), 15, 1015)]
   \<and> maxContentWidthFor 800 = 470"
  by code_simp

section \<open>DialogueLineManager: the speaker decides side and colour\<close>

definition charCodeSum :: "string \<Rightarrow> nat" where
  "charCodeSum s = sum_list (map of_char s)"

lemma nameHashLoop_sum: "nameHashLoop s acc = acc + charCodeSum s"
  by (induction s arbitrary: acc) (simp_all add: charCodeSum_def)

text \<open>
  C7 (as stated, refuted). A line whose speaker name is the empty string gets colour
  index 2, the index of \<open>Unknown\<close>, where the sum of the character codes of the name is 0.
\<close>

theorem empty_name_colour:
  "(case createDialogueLine demoManager demoPixi demoHeap
           (Some \<lparr>name = Some [], text' = Some ''hi''\<rparr>) 160 of
      Inr (h, l) \<Rightarrow> map_option colorIndex (bubble l)
    | Inl e \<Rightarrow> None)
   = Some 2
   \<and> charCodeSum [] mod 6 = 0"
  by code_simp

text \<open>
  C7 (amended). The side and the colour index of a bubble are functions of the speaker name
  alone, an empty or missing name counting as \<open>Unknown\<close>: whatever the manager, the
  textures, the styles, the text of the line and the width, the bubble is on the right
  exactly when the sum of the character codes of that name is even, and its colour is the
  palette entry at that sum modulo 6.
\<close>

theorem speaker_side_and_colour:
  "\<exists>h' laidOut b.
     createDialogueLine m px h (Some \<lparr>name = n, text' = t\<rparr>) aw = Inr (h', laidOut)
     \<and> bubble laidOut = Some b
     \<and> isRightAligned b = even (charCodeSum (orDefault n ''Unknown''))
     \<and> colorIndex b = charCodeSum (orDefault n ''Unknown'') mod 6
     \<and> bubbleColor b = speakerColors ! (charCodeSum (orDefault n ''Unknown'') mod 6)"
proof -
  obtain h' laidOut where c: "createDialogueLine m px h (Some \<lparr>name = n, text' = t\<rparr>) aw = Inr (h', laidOut)"
    using createDialogueLine_Inr by blast
  from createDialogueLine_fields(4) [OF c] obtain b where "bubble laidOut = Some b"
    and "isRightAligned b = (nameHashLoop (orDefault n ''Unknown'') 0 mod 2 = 0)"
    and "colorIndex b = nameHashLoop (orDefault n ''Unknown'') 0 mod length speakerColors"
    and "bubbleColor b = speakerColors ! colorIndex b"
    by auto
  with c show ?thesis
    by (simp add: nameHashLoop_sum speakerColors_def even_iff_mod_2_eq_zero)
qed

section \<open>DialogueLineManager: a line with missing fields\<close>

text \<open>
  C9. For every line record, creating the dialogue line returns: it never raises. The
  speaker label shows the name, or \<open>Unknown\<close> when the name is missing or empty; the parts
  are those of the text, or of the empty string when the text is missing; the line has its
  bubble and its label is visible.
\<close>

theorem malformed_line_is_laid_out:
  "\<exists>h' laidOut b.
     createDialogueLine m px h (Some l) aw = Inr (h', laidOut)
     \<and> objText (characterText laidOut) = orDefault (name l) ''Unknown'' @ '':''
     \<and> parts laidOut = parseLine (orDefault (text' l) [])
     \<and> bubble laidOut = Some b
     \<and> visible (characterText laidOut)
     \<and> orDefault None ''Unknown'' = ''Unknown''
     \<and> orDefault (Some []) ''Unknown'' = ''Unknown''
     \<and> parseLine (orDefault None []) = [\<lparr>type = PText, content = []\<rparr>]"
proof -
  obtain h' laidOut where c: "createDialogueLine m px h (Some l) aw = Inr (h', laidOut)"
    using createDialogueLine_Inr by blast
  note f = createDialogueLine_fields [OF c]
  from c obtain fh where
    u: "updateLineLayout m px h ((createLineObjects m px (Some l))\<lparr>speakerName := name l\<rparr>) aw = Inr (h', laidOut, fh)"
    by (auto simp: createDialogueLine_def Let_def split: sum.splits)
  have "visible (characterText laidOut)"
    using updateLineLayout_fields(3) [OF u] by (simp add: createLineObjects_def Let_def newText_def)
  with c f show ?thesis
    by (auto simp: orDefault_def parseLine_def)
qed

section \<open>DialogueLineManager: laying a line out twice\<close>

text \<open>
  The layout writes to the styles of its texts: \<open>fill\<close> on every text, \<open>fontWeight\<close> on the
  speaker label. When the styles handed to the manager are \<open>TextStyle\<close> instances, the texts
  share them and the writes stay in the heap after the call. \<open>whitenAt A h\<close> is the heap
  \<open>h\<close> with \<open>fill\<close> set to white at the addresses in \<open>A\<close>.
\<close>

definition whitenAt :: "nat set \<Rightarrow> styleHeap \<Rightarrow> styleHeap" where
  "whitenAt A h = (\<lambda>a. if a \<in> A then (h a)\<lparr>fill := white\<rparr> else h a)"

definition textAddrs :: "(ObjKind \<times> Texture option \<times> nat option) list \<Rightarrow> nat list \<Rightarrow> nat set" where
  "textAddrs shapes is =
     {a. \<exists>i\<in>set is. i < length shapes \<and> fst (shapes ! i) = TextKind \<and> snd (snd (shapes ! i)) = Some a}"

lemma whitenAt_empty [simp]: "whitenAt {} h = h"
  by (simp add: whitenAt_def)

lemma whitenAt_twice: "whitenAt A (whitenAt B h) = whitenAt (A \<union> B) h"
  by (auto simp: whitenAt_def fun_eq_iff)

lemma whitenAt_single: "h(a := (h a)\<lparr>fill := white\<rparr>) = whitenAt {a} h"
  by (auto simp: whitenAt_def fun_eq_iff)

lemma textAddrs_Nil [simp]: "textAddrs shapes [] = {}"
  by (simp add: textAddrs_def)

lemma textAddrs_Cons: "textAddrs shapes (i # is) = textAddrs shapes [i] \<union> textAddrs shapes is"
  by (auto simp: textAddrs_def)

lemma sharedAddr_writeStyle [simp]: "sharedAddr (snd (writeStyle f h obj)) = sharedAddr obj"
  by (simp add: writeStyle_def sharedAddr_def split: option.splits StyleRef.splits)

lemma sharedAddr_objScale [simp]: "sharedAddr (obj\<lparr>objScale := s\<rparr>) = sharedAddr obj"
  by (simp add: sharedAddr_def)

lemma scalePart_heap:
  "fst (scalePart sf ts el i (h, objs, le)) = whitenAt (textAddrs (map shape objs) [i]) h"
proof (cases "i < length objs \<and> kind (objs ! i) = TextKind")
  case True
  then have t: "textAddrs (map shape objs) [i] = (case sharedAddr (objs ! i) of None \<Rightarrow> {} | Some a \<Rightarrow> {a})"
    by (auto simp: textAddrs_def shape_def split: option.splits)
  have "fst (scalePart sf ts el i (h, objs, le)) =
          fst (writeStyle (\<lambda>d. d\<lparr>fill := white\<rparr>) h ((objs ! i)\<lparr>objScale := sf\<rparr>))"
    using True by (simp add: scalePart_def Let_def split: prod.splits)
  also have "\<dots> = (case sharedAddr (objs ! i) of None \<Rightarrow> h | Some a \<Rightarrow> whitenAt {a} h)"
    by (simp add: writeStyle_heap whitenAt_single split: option.splits)
  finally show ?thesis using t by (simp split: option.splits)
next
  case False
  then have "textAddrs (map shape objs) [i] = {}"
    by (auto simp: textAddrs_def shape_def)
  moreover have "fst (scalePart sf ts el i (h, objs, le)) = h"
    using False by (auto simp: scalePart_def Let_def)
  ultimately show ?thesis by simp
qed

lemma scalePart_heap_free:
  "snd (scalePart sf ts el i (h, objs, le)) = snd (scalePart sf ts el i (h', objs, le))"
  using writeStyle_obj_heap_free [of "\<lambda>d. d\<lparr>fill := white\<rparr>" h _ h']
  by (simp add: scalePart_def Let_def split: prod.splits) (metis snd_conv)

lemma fold_scalePart_heap:
  "fst (fold (scalePart sf ts el) is (h, objs, le)) = whitenAt (textAddrs (map shape objs) is) h"
proof (induction "is" arbitrary: h objs le)
  case Nil
  show ?case by simp
next
  case (Cons i "is")
  obtain h' objs' le' where s: "scalePart sf ts el i (h, objs, le) = (h', objs', le')"
    by (cases "scalePart sf ts el i (h, objs, le)")
  have sh: "map shape objs' = map shape objs" using scalePart_shapes [of sf ts el i h objs le] s by simp
  have h': "h' = whitenAt (textAddrs (map shape objs) [i]) h"
    using scalePart_heap [of sf ts el i h objs le] s by simp
  have "fst (fold (scalePart sf ts el) (i # is) (h, objs, le)) = whitenAt (textAddrs (map shape objs') is) h'"
    using Cons.IH [of h' objs' le'] s by simp
  also have "\<dots> = whitenAt (textAddrs (map shape objs) is \<union> textAddrs (map shape objs) [i]) h"
    by (simp add: sh h' whitenAt_twice)
  also have "\<dots> = whitenAt (textAddrs (map shape objs) (i # is)) h"
    by (simp add: textAddrs_Cons [of _ i "is"] Un_commute)
  finally show ?case .
qed

lemma fold_scalePart_heap_free:
  "snd (fold (scalePart sf ts el) is (h, objs, le)) = snd (fold (scalePart sf ts el) is (h', objs, le))"
proof (induction "is" arbitrary: h h' objs le)
  case Nil
  show ?case by simp
next
  case (Cons i "is")
  obtain h1 objs1 le1 where s: "scalePart sf ts el i (h, objs, le) = (h1, objs1, le1)"
    by (cases "scalePart sf ts el i (h, objs, le)")
  obtain h1' objs1' le1' where s': "scalePart sf ts el i (h', objs, le) = (h1', objs1', le1')"
    by (cases "scalePart sf ts el i (h', objs, le)")
  from scalePart_heap_free [of sf ts el i h objs le h'] s s'
  have "objs1' = objs1" "le1' = le1" by simp_all
  with Cons.IH [of h1 objs1 le1 h1'] s s' show ?case by simp
qed

text \<open>The writes to the speaker label.\<close>

definition labelWrites :: "DisplayObject \<Rightarrow> styleHeap \<Rightarrow> styleHeap" where
  "labelWrites ct h =
     (case sharedAddr ct of
        None \<Rightarrow> h
      | Some c \<Rightarrow> h(c := (h c)\<lparr>fill := white, fontWeight := ''bold''\<rparr>))"

lemma styleCharacterText_heap: "fst (styleCharacterText sf h ct) = labelWrites ct h"
  by (simp add: styleCharacterText_alt writeStyle_heap labelWrites_def split: option.splits)

lemma styleCharacterText_heap_free:
  "snd (styleCharacterText sf h ct) = snd (styleCharacterText sf h' ct)"
  by (simp add: styleCharacterText_alt)
    (metis writeStyle_obj_heap_free)

lemma styleCharacterText_sharedAddr [simp]:
  "sharedAddr (snd (styleCharacterText sf h ct)) = sharedAddr ct"
  by (simp add: styleCharacterText_alt)

lemma styleCharacterText_kind [simp]: "kind (snd (styleCharacterText sf h ct)) = kind ct"
  by (simp add: styleCharacterText_alt writeStyle_def split: option.splits StyleRef.splits)

lemma styleCharacterText_objScale [simp]: "objScale (snd (styleCharacterText sf h ct)) = sf"
  by (simp add: styleCharacterText_alt writeStyle_def split: option.splits StyleRef.splits)

lemma textStyle_absorb:
  "fill d = white \<Longrightarrow> fontWeight d = ''bold'' \<Longrightarrow> d\<lparr>fill := white, fontWeight := ''bold''\<rparr> = d"
  by (cases d) simp

lemma textStyle_absorb_fill: "fill d = white \<Longrightarrow> d\<lparr>fill := white\<rparr> = d"
  by (cases d) simp

lemma labelWrites_settled:
  "labelWrites ct (whitenAt A (labelWrites ct h)) = whitenAt A (labelWrites ct h)"
proof (cases "sharedAddr ct")
  case None
  then show ?thesis by (simp add: labelWrites_def)
next
  case (Some c)
  have "(whitenAt A (labelWrites ct h) c)\<lparr>fill := white, fontWeight := ''bold''\<rparr>
          = whitenAt A (labelWrites ct h) c"
    by (rule textStyle_absorb) (simp_all add: whitenAt_def labelWrites_def Some)
  then show ?thesis by (simp add: labelWrites_def [of ct "whitenAt A (labelWrites ct h)"] Some)
qed

lemma resolveStyle_cong:
  "(\<And>a. sharedAddr obj = Some a \<Longrightarrow> h a = h' a) \<Longrightarrow> resolveStyle h obj = resolveStyle h' obj"
  by (simp add: resolveStyle_def sharedAddr_def split: option.splits StyleRef.splits)

lemma displayHeight_settled:
  assumes "sharedAddr ct' = sharedAddr ct"
  shows "displayHeight px (whitenAt A (labelWrites ct h)) ct' = displayHeight px (labelWrites ct h) ct'"
proof -
  have "resolveStyle (whitenAt A (labelWrites ct h)) ct' = resolveStyle (labelWrites ct h) ct'"
  proof (rule resolveStyle_cong)
    fix a assume "sharedAddr ct' = Some a"
    with assms have "sharedAddr ct = Some a" by simp
    then have "fill (labelWrites ct h a) = white" by (simp add: labelWrites_def)
    then show "whitenAt A (labelWrites ct h) a = labelWrites ct h a"
      by (simp add: whitenAt_def textStyle_absorb_fill)
  qed
  then show ?thesis by (simp add: displayHeight_def)
qed

lemma fontSizeOr16_whitenAt [simp]: "fontSizeOr16 (whitenAt A h) arg = fontSizeOr16 h arg"
  by (simp add: fontSizeOr16_def whitenAt_def split: StyleArg.splits)

lemma getLineHeight_whitenAt [simp]: "getLineHeight m (whitenAt A h) = getLineHeight m h"
  by (simp add: getLineHeight_def)

lemma layoutCore_cong:
  assumes "displayHeight px h1 ct = displayHeight px h1' ct"
    and "getLineHeight m h1 = getLineHeight m h1'"
  shows "layoutCore m px h1 h2 lineData aw ct objs1 lefts = layoutCore m px h1' h2 lineData aw ct objs1 lefts"
  unfolding layoutCore_def assms ..

lemma updateLineLayout_heap:
  assumes "updateLineLayout m px h0 lineData aw = Inr (h', laidOut, fh)"
  shows "h' = whitenAt (textAddrs (map shape (partObjects lineData)) [0..<length (parts lineData)])
                (labelWrites (characterText lineData) h0)"
proof -
  obtain h1 ct where c: "styleCharacterText (scaleFactorFor aw) h0 (characterText lineData) = (h1, ct)"
    by (cases "styleCharacterText (scaleFactorFor aw) h0 (characterText lineData)")
  obtain h2 objs1 lefts where
    s: "scaleParts m (scaleFactorFor aw) (length (parts lineData)) (h1, partObjects lineData, []) = (h2, objs1, lefts)"
    by (cases "scaleParts m (scaleFactorFor aw) (length (parts lineData)) (h1, partObjects lineData, [])")
  from assms have lc: "layoutCore m px h1 h2 lineData aw ct objs1 lefts = Inr (h', laidOut, fh)"
    by (simp add: updateLineLayout_def c s)
  have "h1 = labelWrites (characterText lineData) h0"
    using styleCharacterText_heap [of "scaleFactorFor aw" h0 "characterText lineData"] c by simp
  moreover have "h2 = whitenAt (textAddrs (map shape (partObjects lineData)) [0..<length (parts lineData)]) h1"
    using fold_scalePart_heap [of "scaleFactorFor aw" "emojiSize (styles m) * scaleFactorFor aw"
        "shouldPositionEmojisLeft m" "[0..<length (parts lineData)]" h1 "partObjects lineData" "[]"] s
    by (simp add: scaleParts_def)
  ultimately show ?thesis using layoutCore_fields(1) [OF lc] by simp
qed

lemma updateLineLayout_again:
  assumes "updateLineLayout m px h0 lineData aw = Inr (h', laidOut, fh)"
  shows "updateLineLayout m px h' lineData aw = Inr (h', laidOut, fh)"
proof -
  define A where "A = textAddrs (map shape (partObjects lineData)) [0..<length (parts lineData)]"
  define sf where "sf = scaleFactorFor aw"
  define ct0 where "ct0 = characterText lineData"
  define ct where "ct = snd (styleCharacterText sf h0 ct0)"
  define h1 where "h1 = labelWrites ct0 h0"
  define h2 where "h2 = whitenAt A h1"
  have c: "styleCharacterText sf h0 ct0 = (h1, ct)"
    using styleCharacterText_heap [of sf h0 ct0] by (simp add: h1_def ct_def prod_eq_iff)
  obtain objs1 lefts where r: "snd (scaleParts m sf (length (parts lineData)) (h1, partObjects lineData, [])) = (objs1, lefts)"
    by (cases "snd (scaleParts m sf (length (parts lineData)) (h1, partObjects lineData, []))")
  have s: "scaleParts m sf (length (parts lineData)) (h1, partObjects lineData, []) = (h2, objs1, lefts)"
    using fold_scalePart_heap [of sf "emojiSize (styles m) * sf" "shouldPositionEmojisLeft m"
        "[0..<length (parts lineData)]" h1 "partObjects lineData" "[]"] r
    by (simp add: scaleParts_def h2_def A_def prod_eq_iff)
  from assms have lc: "layoutCore m px h1 h2 lineData aw ct objs1 lefts = Inr (h', laidOut, fh)"
    using c s by (simp add: updateLineLayout_def sf_def ct0_def)
  have h': "h' = h2" using layoutCore_fields(1) [OF lc] .
  have c2: "styleCharacterText sf h2 ct0 = (h2, ct)"
  proof -
    have "fst (styleCharacterText sf h2 ct0) = h2"
      by (simp add: styleCharacterText_heap h2_def h1_def labelWrites_settled)
    moreover have "snd (styleCharacterText sf h2 ct0) = ct"
      unfolding ct_def by (rule styleCharacterText_heap_free)
    ultimately show ?thesis by (simp add: prod_eq_iff)
  qed
  have s2: "scaleParts m sf (length (parts lineData)) (h2, partObjects lineData, []) = (h2, objs1, lefts)"
  proof -
    have "fst (scaleParts m sf (length (parts lineData)) (h2, partObjects lineData, [])) = whitenAt A h2"
      using fold_scalePart_heap [of sf "emojiSize (styles m) * sf" "shouldPositionEmojisLeft m"
          "[0..<length (parts lineData)]" h2 "partObjects lineData" "[]"]
      by (simp add: scaleParts_def A_def)
    also have "\<dots> = h2" by (simp add: h2_def whitenAt_twice)
    finally have "fst (scaleParts m sf (length (parts lineData)) (h2, partObjects lineData, [])) = h2" .
    moreover have "snd (scaleParts m sf (length (parts lineData)) (h2, partObjects lineData, [])) = (objs1, lefts)"
      using fold_scalePart_heap_free [of sf "emojiSize (styles m) * sf" "shouldPositionEmojisLeft m"
          "[0..<length (parts lineData)]" h2 "partObjects lineData" "[]" h1] r
      by (simp add: scaleParts_def)
    ultimately show ?thesis by (simp add: prod_eq_iff)
  qed
  have "displayHeight px h2 ct = displayHeight px h1 ct"
    unfolding h2_def h1_def by (rule displayHeight_settled) (simp add: ct_def)
  moreover have "getLineHeight m h2 = getLineHeight m h1" by (simp add: h2_def)
  ultimately have "layoutCore m px h2 h2 lineData aw ct objs1 lefts = layoutCore m px h1 h2 lineData aw ct objs1 lefts"
    by (rule layoutCore_cong)
  then show ?thesis
    using lc c2 s2 h' by (simp add: updateLineLayout_def sf_def ct0_def)
qed

text \<open>
  C8. Two successive calls of \<open>createDialogueLine\<close> with the same line, width, manager and
  textures: the first call returns a line and leaves a heap of styles; the second call, on
  that heap, returns the same line (the same bubble, the same height of the container, the
  same placed words, emojis and avatar at the same positions) and leaves the same heap.
\<close>

theorem layout_is_idempotent:
  "\<exists>h1 laidOut.
     createDialogueLine m px h (Some l) aw = Inr (h1, laidOut)
     \<and> createDialogueLine m px h1 (Some l) aw = Inr (h1, laidOut)"
proof -
  obtain h1 laidOut where c: "createDialogueLine m px h (Some l) aw = Inr (h1, laidOut)"
    using createDialogueLine_Inr by blast
  then obtain fh where
    u: "updateLineLayout m px h ((createLineObjects m px (Some l))\<lparr>speakerName := name l\<rparr>) aw = Inr (h1, laidOut, fh)"
    by (auto simp: createDialogueLine_def Let_def split: sum.splits)
  from updateLineLayout_again [OF u]
  have "createDialogueLine m px h1 (Some l) aw = Inr (h1, laidOut)"
    by (simp add: createDialogueLine_def Let_def)
  with c show ?thesis by blast
qed

section \<open>DialogueLineManager.updateLineVisibility\<close>

text \<open>
  One iteration of the \<open>forEach\<close> over the parts. A part whose object is missing is skipped.
  \<open>instanceof Text\<close> is the test \<open>kind = TextKind\<close>.
\<close>

definition revealObject :: "nat \<Rightarrow> nat \<Rightarrow> nat \<Rightarrow> DialoguePart \<Rightarrow> DisplayObject \<Rightarrow> DisplayObject" where
  "revealObject partIndex charIndex index part object =
     (if index < partIndex then
        (let o1 = object\<lparr>visible := True\<rparr>
         in if kind o1 = TextKind \<and> objText o1 \<noteq> content part
            then o1\<lparr>objText := content part\<rparr> else o1)
      else if index = partIndex \<and> type part = PText then
        (let o1 = object\<lparr>visible := True\<rparr>
         in if kind o1 = TextKind
            then o1\<lparr>objText := substring (content part) 0 charIndex\<rparr> else o1)
      else if index = partIndex \<and> type part = PEmoji then
        object\<lparr>visible := (charIndex > 0)\<rparr>
      else object\<lparr>visible := False\<rparr>)"

definition revealPart ::
  "nat \<Rightarrow> nat \<Rightarrow> nat \<times> DialoguePart \<Rightarrow> DisplayObject list \<Rightarrow> DisplayObject list" where
  "revealPart partIndex charIndex ip objs =
     (case ip of (index, part) \<Rightarrow>
        if \<not> index < length objs then objs
        else objs[index := revealObject partIndex charIndex index part (objs ! index)])"

definition updateLineVisibility :: "LineRenderData \<Rightarrow> nat \<Rightarrow> nat \<Rightarrow> LineRenderData" where
  "updateLineVisibility lineData partIndex charIndex =
     lineData\<lparr>characterText := (characterText lineData)\<lparr>visible := True\<rparr>,
              partObjects := fold (revealPart partIndex charIndex)
                               (zip [0..<length (parts lineData)] (parts lineData))
                               (partObjects lineData)\<rparr>"

section \<open>DialogueManager\<close>

text \<open>
  The state of a \<open>DialogueManager\<close>. \<open>dialogue\<close> is the array \<open>dialogueData.dialogue\<close>,
  \<open>styleInstances\<close> the heap of the \<open>TextStyle\<close> instances the configured styles may refer
  to. The screen of the application changes from outside and is a parameter of the methods
  that read it.
\<close>

record Application =
  screenWidth :: real
  screenHeight :: real

record DialogueManager =
  lineManager :: DialogueLineManager
  dialogue :: "DialogueLine list"
  linesData :: "LineRenderData list"
  currentLineIndex :: nat
  currentPartIndex :: nat
  currentCharacterIndex :: nat
  lineRevealAccumulator :: real
  isTypingComplete :: bool
  scrollManager :: ScrollManager
  styleInstances :: styleHeap

definition nthOpt :: "'a list \<Rightarrow> nat \<Rightarrow> 'a option" where
  "nthOpt xs i = (if i < length xs then Some (xs ! i) else None)"

text \<open>
  \<open>updateMask\<close> clears the mask and draws one rectangle into it. The result is the height
  the scroll manager will read from the mask, and the position given to the dialogue
  container.
\<close>

definition updateMask :: "Pixi \<Rightarrow> DialogueStyles \<Rightarrow> real \<Rightarrow> real \<Rightarrow> real \<times> real" where
  "updateMask px st width height =
     (let padding = dialoguePadding st;
          responsivePadding = max padding (min (width * (8 / 100)) (height * (8 / 100)))
      in (graphicsHeight px (width - responsivePadding * 2) (height - responsivePadding * 2),
          responsivePadding))"

text \<open>\<open>initializeDialogue\<close>: the loop over the dialogue, then the content height.\<close>

fun initializeLines ::
  "DialogueLineManager \<Rightarrow> Pixi \<Rightarrow> real \<Rightarrow> DialogueLine list
     \<Rightarrow> real \<times> styleHeap \<times> LineRenderData list
     \<Rightarrow> jsError + (real \<times> styleHeap \<times> LineRenderData list)" where
  "initializeLines m px aw [] acc = Inr acc"
| "initializeLines m px aw (line # rest) (curY, h, ls) =
     (case createDialogueLine m px h (Some line) aw of
        Inl e \<Rightarrow> Inl e
      | Inr (h', lineData) \<Rightarrow>
          let placed = lineData\<lparr>containerY := curY\<rparr>;
              curY' = curY + containerHeight placed + lineSpacing (styles m)
          in initializeLines m px aw rest
               (curY', h', ls @ [updateLineVisibility placed 0 0]))"

definition initializeDialogue ::
  "Pixi \<Rightarrow> Application \<Rightarrow> DialogueManager \<Rightarrow> jsError + DialogueManager" where
  "initializeDialogue px app s =
     (case initializeLines (lineManager s) px
             (screenWidth app - dialoguePadding (styles (lineManager s)) * 2)
             (dialogue s) (0, styleInstances s, linesData s) of
        Inl e \<Rightarrow> Inl e
      | Inr (curY, h, ls) \<Rightarrow>
          Inr (s\<lparr>linesData := ls, styleInstances := h,
                 scrollManager := updateContentHeight curY (scrollManager s)\<rparr>))"

definition newDialogueManager ::
  "Pixi \<Rightarrow> Application \<Rightarrow> styleHeap \<Rightarrow> DialogueLine list \<Rightarrow> (string \<Rightarrow> Texture option)
     \<Rightarrow> (string \<Rightarrow> Texture option) \<Rightarrow> DialogueStyles \<Rightarrow> jsError + DialogueManager" where
  "newDialogueManager px app h dialogueData emojiTex avatarTex st =
     (case updateMask px st (screenWidth app) (screenHeight app) of
        (mh, cy) \<Rightarrow>
          initializeDialogue px app
            \<lparr> lineManager =
                \<lparr> styles = st,
                  emojiManager = \<lparr> emojiTextures = emojiTex, em_emojiSize = emojiSize st,
                                   em_missingEmojiStyle = missingEmojiStyle st \<rparr>,
                  avatarManager = \<lparr> avatarTextures = avatarTex, am_avatarSize = avatarSize st,
                                    am_avatarPadding = avatarPadding st \<rparr> \<rparr>,
              dialogue = dialogueData, linesData = [],
              currentLineIndex = 0, currentPartIndex = 0, currentCharacterIndex = 0,
              lineRevealAccumulator = 0, isTypingComplete = False,
              scrollManager = newScrollManager mh cy, styleInstances = h \<rparr>)"

subsection \<open>Typing\<close>

definition nextLine :: "DialogueManager \<Rightarrow> DialogueManager" where
  "nextLine s = s\<lparr>currentLineIndex := currentLineIndex s + 1, currentPartIndex := 0,
                  currentCharacterIndex := 0\<rparr>"

definition showLine :: "nat \<Rightarrow> LineRenderData \<Rightarrow> DialogueManager \<Rightarrow> DialogueManager" where
  "showLine i lineData s =
     s\<lparr>linesData := (linesData s)[i := updateLineVisibility lineData (currentPartIndex s)
                                          (currentCharacterIndex s)]\<rparr>"

text \<open>"Handle different part types": the cursor after one step in the current part.\<close>

definition stepCursor :: "DialoguePart \<Rightarrow> DialogueManager \<Rightarrow> DialogueManager" where
  "stepCursor currentPart s =
     (if type currentPart = PText then
        (let c = currentCharacterIndex s + 1
         in if c > length (content currentPart)
            then s\<lparr>currentCharacterIndex := 0, currentPartIndex := currentPartIndex s + 1\<rparr>
            else s\<lparr>currentCharacterIndex := c\<rparr>)
      else if type currentPart = PEmoji then
        s\<lparr>currentCharacterIndex := 1, currentPartIndex := currentPartIndex s + 1\<rparr>
      else s)"

definition advanceTyping :: "DialogueManager \<Rightarrow> DialogueManager" where
  "advanceTyping s =
     (if isTypingComplete s then s
      else case nthOpt (linesData s) (currentLineIndex s) of
        None \<Rightarrow> s\<lparr>isTypingComplete := True\<rparr>
      | Some currentLine \<Rightarrow>
          (case nthOpt (parts currentLine) (currentPartIndex s) of
             None \<Rightarrow>
               (let s1 = nextLine s
                in if currentLineIndex s1 \<ge> length (linesData s1)
                   then s1\<lparr>isTypingComplete := True\<rparr>
                   else showLine (currentLineIndex s1) (linesData s1 ! currentLineIndex s1) s1)
           | Some currentPart \<Rightarrow>
               (let s1 = stepCursor currentPart s;
                    s2 = showLine (currentLineIndex s1) currentLine s1
                in if currentPartIndex s2 \<ge> length (parts currentLine) then
                     (let s3 = nextLine s2
                      in if currentLineIndex s3 \<ge> length (linesData s3)
                         then s3\<lparr>isTypingComplete := True\<rparr> else s3)
                   else s2)))"

text \<open>
  The \<open>while\<close> loop of \<open>update\<close>. It does not end when the time of a character is not
  positive, so its result is optional.
\<close>

partial_function (option) typingLoop :: "real \<Rightarrow> DialogueManager \<Rightarrow> DialogueManager option" where
  "typingLoop charRevealTime s =
     (if lineRevealAccumulator s \<ge> charRevealTime
      then typingLoop charRevealTime
             (advanceTyping (s\<lparr>lineRevealAccumulator := lineRevealAccumulator s - charRevealTime\<rparr>))
      else Some s)"

text \<open>
  \<open>1000 / typingSpeed\<close> is \<open>Infinity\<close> for a typing speed of 0, and no accumulated time
  reaches it. The accumulator and the time of a character are exact here and doubles in the
  source: the number of iterations is the source's where \<open>1000 / typingSpeed\<close> and the
  times are integers (a typing speed of 10 and ticks of 100 ms in the runs below), and can
  differ by rounding elsewhere (a typing speed of 30).
\<close>

definition update :: "real \<Rightarrow> DialogueManager \<Rightarrow> DialogueManager option" where
  "update deltaMS s =
     (if isTypingComplete s
      then Some (s\<lparr>scrollManager := updateScroll deltaMS (scrollManager s)\<rparr>)
      else
        let s1 = s\<lparr>lineRevealAccumulator := lineRevealAccumulator s + deltaMS\<rparr>;
            speed = typingSpeed (styles (lineManager s1))
        in case (if speed = 0 then Some s1 else typingLoop (1000 / speed) s1) of
             None \<Rightarrow> None
           | Some s2 \<Rightarrow>
               let sm = updateScroll deltaMS (scrollManager s2)
               in Some (s2\<lparr>scrollManager :=
                            (if \<not> isTypingComplete s2 then scrollToBottom sm else sm)\<rparr>))"

subsection \<open>Resizing\<close>

text \<open>
  \<open>resize\<close> copies the three text styles into locals and scales their font sizes; nothing
  reads the copies, and they are left out. The display tree (\<open>removeChildren\<close>, \<open>addChild\<close>)
  is not part of the state.
\<close>

text \<open>One iteration of the loop "Rebuild and relayout all lines".\<close>

definition rebuildLine ::
  "DialogueManager \<Rightarrow> Pixi \<Rightarrow> real \<Rightarrow> real \<Rightarrow> nat
     \<Rightarrow> real \<times> styleHeap \<times> LineRenderData list
     \<Rightarrow> jsError + (real \<times> styleHeap \<times> LineRenderData list)" where
  "rebuildLine s px aw responsiveLineSpacing idx acc =
     (case acc of (curY, h, ls) \<Rightarrow>
        (case createDialogueLine (lineManager s) px h (nthOpt (dialogue s) idx) aw of
           Inl e \<Rightarrow> Inl e
         | Inr (h', lineData) \<Rightarrow>
             let newLineData = lineData\<lparr>containerY := curY\<rparr>;
                 curY' = curY + containerHeight newLineData + responsiveLineSpacing;
                 shown =
                   (if idx < currentLineIndex s then
                      updateLineVisibility newLineData (length (parts newLineData)) 0
                    else if idx = currentLineIndex s then
                      updateLineVisibility newLineData (currentPartIndex s)
                        (currentCharacterIndex s)
                    else updateLineVisibility newLineData 0 0)
             in Inr (curY', h', ls[idx := shown])))"

fun rebuildLines ::
  "DialogueManager \<Rightarrow> Pixi \<Rightarrow> real \<Rightarrow> real \<Rightarrow> nat list
     \<Rightarrow> real \<times> styleHeap \<times> LineRenderData list
     \<Rightarrow> jsError + (real \<times> styleHeap \<times> LineRenderData list)" where
  "rebuildLines s px aw sp [] acc = Inr acc"
| "rebuildLines s px aw sp (idx # rest) acc =
     (case rebuildLine s px aw sp idx acc of
        Inl e \<Rightarrow> Inl e
      | Inr acc' \<Rightarrow> rebuildLines s px aw sp rest acc')"

definition resize :: "Pixi \<Rightarrow> real \<Rightarrow> real \<Rightarrow> DialogueManager \<Rightarrow> jsError + DialogueManager" where
  "resize px width height s =
     (case updateMask px (styles (lineManager s)) width height of
        (mh, cy) \<Rightarrow>
          let sm1 = (scrollManager s)\<lparr>maskHeight := mh, dialogueContainerY := cy\<rparr>;
              sf = min 1 (max (8 / 10) (width / 800));
              responsiveLineSpacing = lineSpacing (styles (lineManager s)) * sf;
              availableWidth = width - dialoguePadding (styles (lineManager s)) * 2
          in case rebuildLines s px availableWidth responsiveLineSpacing
                    [0..<length (linesData s)] (0, styleInstances s, linesData s) of
               Inl e \<Rightarrow> Inl e
             | Inr (curY, h, ls) \<Rightarrow>
                 let sm2 = updateContentHeight curY sm1;
                     sm3 = (if \<not> isTypingComplete s \<and> currentLineIndex s < length ls
                            then scrollToPosition (containerY (ls ! currentLineIndex s)) sm2
                            else sm2)
                 in Inr (s\<lparr>linesData := ls, styleInstances := h, scrollManager := sm3\<rparr>))"

subsection \<open>Appending a message\<close>

definition appendMessage ::
  "Pixi \<Rightarrow> Application \<Rightarrow> DialogueLine \<Rightarrow> DialogueManager \<Rightarrow> jsError + DialogueManager" where
  "appendMessage px app line s =
     (let curY =
            (if length (linesData s) > 0 then
               (let lastLine = linesData s ! (length (linesData s) - 1)
                in containerY lastLine + containerHeight lastLine
                     + lineSpacing (styles (lineManager s)))
             else 0);
          availableWidth = screenWidth app - dialoguePadding (styles (lineManager s)) * 2
      in case createDialogueLine (lineManager s) px (styleInstances s) (Some line) availableWidth of
           Inl e \<Rightarrow> Inl e
         | Inr (h', lineData) \<Rightarrow>
             let newLineData = lineData\<lparr>containerY := curY\<rparr>;
                 s1 = s\<lparr>styleInstances := h',
                        linesData := linesData s @ [updateLineVisibility newLineData 0 0],
                        dialogue := dialogue s @ [line]\<rparr>;
                 totalHeight = curY + containerHeight newLineData;
                 s2 = s1\<lparr>scrollManager := updateContentHeight totalHeight (scrollManager s1)\<rparr>;
                 s3 = (if isTypingComplete s2
                       then s2\<lparr>isTypingComplete := False, lineRevealAccumulator := 0\<rparr>
                       else s2);
                 s4 = s3\<lparr>currentLineIndex := length (linesData s3) - 1,
                        currentPartIndex := 0, currentCharacterIndex := 0\<rparr>
             in Inr (s4\<lparr>scrollManager := forceScrollToBottomSM (scrollManager s4)\<rparr>))"

section \<open>Appending a message: cursor, flag and scroll target\<close>

lemma forceScrollToBottomSM_target:
  "targetScrollY (forceScrollToBottomSM sm) = - getMaxScroll sm"
  by (simp add: forceScrollToBottomSM_def scrollToBottom_def getMaxScroll_def Let_def)

lemma forceScrollToBottomSM_frame:
  "isScrollingPaused (forceScrollToBottomSM sm) = isScrollingPaused sm"
  "dialogueContentHeight (forceScrollToBottomSM sm) = dialogueContentHeight sm"
  "maskHeight (forceScrollToBottomSM sm) = maskHeight sm"
  by (simp_all add: forceScrollToBottomSM_def scrollToBottom_def Let_def)

lemma updateContentHeight_frame:
  "isScrollingPaused (updateContentHeight y sm) = isScrollingPaused sm"
  "dialogueContentHeight (updateContentHeight y sm) = y"
  "maskHeight (updateContentHeight y sm) = maskHeight sm"
  by (simp_all add: updateContentHeight_def scrollToBottom_def Let_def)

lemma getMaxScroll_forceScrollToBottomSM:
  "getMaxScroll (forceScrollToBottomSM sm) = getMaxScroll sm"
  by (simp add: getMaxScroll_def forceScrollToBottomSM_frame)

lemma appendMessage_Inr:
  obtains h' lineData where
    "createDialogueLine (lineManager s) px (styleInstances s) (Some line)
       (screenWidth app - dialoguePadding (styles (lineManager s)) * 2) = Inr (h', lineData)"
  using createDialogueLine_Inr by blast

text \<open>
  C5. For every dialogue line and every state of the dialogue manager, paused or not,
  \<open>appendMessage\<close> returns; the new line is the one \<open>createDialogueLine\<close> lays out for the
  screen width, placed below the last line (at 0 when there is none) and appended to the
  lines; the typing-complete flag is false; the typing cursor is on the first character of
  the first part of the new last line; the content height is the bottom of the new line;
  and the scroll target is the new bottom of the content, minus the largest scroll
  \<open>max 0 (content height - mask height)\<close>, which is \<open>- getMaxScroll\<close> of the new state.
\<close>

theorem appendMessage_cursor_and_target:
  "\<exists>s' h' laidOut y.
     createDialogueLine (lineManager s) px (styleInstances s) (Some line)
       (screenWidth app - dialoguePadding (styles (lineManager s)) * 2) = Inr (h', laidOut)
     \<and> y = (if linesData s = [] then 0
              else containerY (last (linesData s)) + containerHeight (last (linesData s))
                     + lineSpacing (styles (lineManager s)))
     \<and> appendMessage px app line s = Inr s'
     \<and> \<not> isTypingComplete s'
     \<and> dialogue s' = dialogue s @ [line]
     \<and> linesData s' = linesData s @ [updateLineVisibility (laidOut\<lparr>containerY := y\<rparr>) 0 0]
     \<and> length (linesData s') = length (linesData s) + 1
     \<and> currentLineIndex s' = length (linesData s') - 1
     \<and> currentPartIndex s' = 0 \<and> currentCharacterIndex s' = 0
     \<and> dialogueContentHeight (scrollManager s') = y + containerHeight laidOut
     \<and> maskHeight (scrollManager s') = maskHeight (scrollManager s)
     \<and> targetScrollY (scrollManager s')
           = - max 0 (y + containerHeight laidOut - maskHeight (scrollManager s))
     \<and> targetScrollY (scrollManager s') = - getMaxScroll (scrollManager s')"
proof -
  obtain h' laidOut where
    c: "createDialogueLine (lineManager s) px (styleInstances s) (Some line)
          (screenWidth app - dialoguePadding (styles (lineManager s)) * 2) = Inr (h', laidOut)"
    by (rule appendMessage_Inr)
  define y where "y = (if linesData s = [] then 0
              else containerY (last (linesData s)) + containerHeight (last (linesData s))
                     + lineSpacing (styles (lineManager s)))"
  have y: "(if length (linesData s) > 0 then
               (let lastLine = linesData s ! (length (linesData s) - 1)
                in containerY lastLine + containerHeight lastLine
                     + lineSpacing (styles (lineManager s)))
             else 0) = y"
    by (simp add: y_def Let_def last_conv_nth)
  define sm where "sm = updateContentHeight (y + containerHeight laidOut) (scrollManager s)"
  have h: "dialogueContentHeight sm = y + containerHeight laidOut"
    and mh: "maskHeight sm = maskHeight (scrollManager s)"
    by (simp_all add: sm_def updateContentHeight_frame)
  have t: "targetScrollY (forceScrollToBottomSM sm)
             = - max 0 (y + containerHeight laidOut - maskHeight (scrollManager s))"
    by (simp add: forceScrollToBottomSM_target getMaxScroll_def h mh)
  define s' where "s' = s\<lparr>styleInstances := h',
              linesData := linesData s @ [updateLineVisibility (laidOut\<lparr>containerY := y\<rparr>) 0 0],
              dialogue := dialogue s @ [line],
              isTypingComplete := False,
              lineRevealAccumulator := (if isTypingComplete s then 0 else lineRevealAccumulator s),
              currentLineIndex := length (linesData s),
              currentPartIndex := 0, currentCharacterIndex := 0,
              scrollManager := forceScrollToBottomSM sm\<rparr>"
  have res: "appendMessage px app line s = Inr s'"
    unfolding appendMessage_def y by (simp add: Let_def c sm_def s'_def)
  have f: "\<not> isTypingComplete s'" "dialogue s' = dialogue s @ [line]"
    "linesData s' = linesData s @ [updateLineVisibility (laidOut\<lparr>containerY := y\<rparr>) 0 0]"
    "currentLineIndex s' = length (linesData s)" "currentPartIndex s' = 0"
    "currentCharacterIndex s' = 0" "scrollManager s' = forceScrollToBottomSM sm"
    by (simp_all add: s'_def)
  have g: "dialogueContentHeight (scrollManager s') = y + containerHeight laidOut"
    "maskHeight (scrollManager s') = maskHeight (scrollManager s)"
    by (simp_all add: f forceScrollToBottomSM_frame h mh)
  have g': "targetScrollY (scrollManager s')
           = - max 0 (y + containerHeight laidOut - maskHeight (scrollManager s))"
    by (simp add: f t)
  have g'': "targetScrollY (scrollManager s') = - getMaxScroll (scrollManager s')"
    by (simp add: g' getMaxScroll_def g)
  have "createDialogueLine (lineManager s) px (styleInstances s) (Some line)
       (screenWidth app - dialoguePadding (styles (lineManager s)) * 2) = Inr (h', laidOut)
     \<and> y = (if linesData s = [] then 0
              else containerY (last (linesData s)) + containerHeight (last (linesData s))
                     + lineSpacing (styles (lineManager s)))
     \<and> appendMessage px app line s = Inr s'
     \<and> \<not> isTypingComplete s'
     \<and> dialogue s' = dialogue s @ [line]
     \<and> linesData s' = linesData s @ [updateLineVisibility (laidOut\<lparr>containerY := y\<rparr>) 0 0]
     \<and> length (linesData s') = length (linesData s) + 1
     \<and> currentLineIndex s' = length (linesData s') - 1
     \<and> currentPartIndex s' = 0 \<and> currentCharacterIndex s' = 0
     \<and> dialogueContentHeight (scrollManager s') = y + containerHeight laidOut
     \<and> maskHeight (scrollManager s') = maskHeight (scrollManager s)
     \<and> targetScrollY (scrollManager s')
           = - max 0 (y + containerHeight laidOut - maskHeight (scrollManager s))
     \<and> targetScrollY (scrollManager s') = - getMaxScroll (scrollManager s')"
    using c res g g' g'' by (simp add: f(1-6) y_def)
  then show ?thesis by blast
qed

text \<open>
  C10. \<open>appendMessage\<close> returns with the flag \<open>isScrollingPaused\<close> of the scroll manager as
  it was before the call: \<open>updateContentHeight\<close> does not write it, and
  \<open>forceScrollToBottom\<close> restores the value it saved.
\<close>

theorem appendMessage_keeps_pause_flag:
  "\<exists>s'. appendMessage px app line s = Inr s'
        \<and> isScrollingPaused (scrollManager s') = isScrollingPaused (scrollManager s)"
proof -
  obtain h' lineData where
    c: "createDialogueLine (lineManager s) px (styleInstances s) (Some line)
          (screenWidth app - dialoguePadding (styles (lineManager s)) * 2) = Inr (h', lineData)"
    by (rule appendMessage_Inr)
  show ?thesis
    by (simp add: appendMessage_def Let_def c forceScrollToBottomSM_frame updateContentHeight_frame)
qed

section \<open>What updateLineVisibility shows\<close>

text \<open>
  \<open>updateLineVisibility\<close> reads the class and the text of a part object and writes its visible
  flag and its text. \<open>shownAs\<close> is this view of an object, \<open>revealView\<close> is \<open>revealObject\<close> on it.
\<close>

definition shownAs :: "DisplayObject \<Rightarrow> ObjKind \<times> bool \<times> string" where
  "shownAs obj = (kind obj, visible obj, objText obj)"

definition revealView ::
  "nat \<Rightarrow> nat \<Rightarrow> nat \<Rightarrow> DialoguePart \<Rightarrow> ObjKind \<times> bool \<times> string \<Rightarrow> ObjKind \<times> bool \<times> string" where
  "revealView p c i part v =
     (case v of (k, vis, t) \<Rightarrow>
        if i < p then (k, True, if k = TextKind then content part else t)
        else if i = p \<and> type part = PText
          then (k, True, if k = TextKind then substring (content part) 0 c else t)
        else if i = p \<and> type part = PEmoji then (k, c > 0, t)
        else (k, False, t))"

definition revealViews ::
  "nat \<Rightarrow> nat \<Rightarrow> DialoguePart list \<Rightarrow> (ObjKind \<times> bool \<times> string) list
     \<Rightarrow> (ObjKind \<times> bool \<times> string) list" where
  "revealViews p c ps vs =
     map (\<lambda>i. if i < length ps then revealView p c i (ps ! i) (vs ! i) else vs ! i) [0..<length vs]"

definition lineView :: "LineRenderData \<Rightarrow> bool \<times> (ObjKind \<times> bool \<times> string) list" where
  "lineView lineData = (visible (characterText lineData), map shownAs (partObjects lineData))"

lemma shownAs_revealObject:
  "shownAs (revealObject p c i part obj) = revealView p c i part (shownAs obj)"
  by (simp add: shownAs_def revealObject_def revealView_def Let_def)

lemma fold_revealPart_length [simp]:
  "length (fold (revealPart p c) ips objs) = length objs"
  by (induction ips arbitrary: objs) (auto simp: revealPart_def)

lemma zip_upt_Cons: "zip [a..<a + Suc n] (x # xs) = (a, x) # zip [Suc a..<Suc a + n] xs"
  by (simp add: upt_conv_Cons)

lemma fold_revealPart_nth:
  "j < length objs \<Longrightarrow>
   fold (revealPart p c) (zip [a..<a + length ps] ps) objs ! j =
     (if a \<le> j \<and> j < a + length ps then revealObject p c j (ps ! (j - a)) (objs ! j)
      else objs ! j)"
proof (induction ps arbitrary: a objs)
  case Nil
  show ?case by auto
next
  case (Cons x ps)
  let ?objs1 = "revealPart p c (a, x) objs"
  have len: "length ?objs1 = length objs" by (simp add: revealPart_def)
  have z: "zip [a..<a + length (x # ps)] (x # ps) = (a, x) # zip [Suc a..<Suc a + length ps] ps"
    using zip_upt_Cons [of a "length ps" x ps] by simp
  have step: "fold (revealPart p c) (zip [a..<a + length (x # ps)] (x # ps)) objs ! j =
        (if Suc a \<le> j \<and> j < Suc a + length ps
         then revealObject p c j (ps ! (j - Suc a)) (?objs1 ! j) else ?objs1 ! j)"
    using Cons.IH [of ?objs1 "Suc a"] Cons.prems len by (simp only: z fold_Cons comp_apply)
  show ?case
  proof (cases "j = a")
    case True
    with Cons.prems show ?thesis unfolding step by (simp add: revealPart_def)
  next
    case False
    then have "?objs1 ! j = objs ! j" by (simp add: revealPart_def)
    moreover have "a < j \<Longrightarrow> (x # ps) ! (j - a) = ps ! (j - Suc a)"
      by (simp add: nth_Cons')
    ultimately show ?thesis using False unfolding step by auto
  qed
qed

lemma updateLineVisibility_parts [simp]: "parts (updateLineVisibility lineData p c) = parts lineData"
  by (simp add: updateLineVisibility_def)

lemma updateLineVisibility_shown:
  "map shownAs (partObjects (updateLineVisibility lineData p c)) =
     revealViews p c (parts lineData) (map shownAs (partObjects lineData))"
proof -
  have "map shownAs (fold (revealPart p c) (zip [0..<length (parts lineData)] (parts lineData))
            (partObjects lineData)) =
        revealViews p c (parts lineData) (map shownAs (partObjects lineData))"
    using fold_revealPart_nth [of _ "partObjects lineData" p c 0 "parts lineData"]
    by (intro nth_equalityI) (simp_all add: revealViews_def shownAs_revealObject)
  then show ?thesis by (simp add: updateLineVisibility_def)
qed

lemma updateLineVisibility_view:
  "lineView (updateLineVisibility lineData p c) =
     (True, revealViews p c (parts lineData) (map shownAs (partObjects lineData)))"
  by (simp add: lineView_def updateLineVisibility_shown) (simp add: updateLineVisibility_def)

lemma revealViews_length [simp]: "length (revealViews p c ps vs) = length vs"
  by (simp add: revealViews_def)

lemma revealView_absorb:
  "p \<le> p' \<Longrightarrow> revealView p' c' i part (revealView p c i part v) = revealView p' c' i part v"
  by (cases v) (auto simp: revealView_def)

lemma revealViews_absorb:
  "p \<le> p' \<Longrightarrow> revealViews p' c' ps (revealViews p c ps vs) = revealViews p' c' ps vs"
  by (intro nth_equalityI) (simp_all add: revealViews_def revealView_absorb)

lemma revealViews_full:
  "length ps \<le> p \<Longrightarrow> revealViews p c ps vs = revealViews (length ps) 0 ps vs"
  by (intro nth_equalityI) (auto simp: revealViews_def revealView_def split: prod.splits)

text \<open>The view of a line that has been shown from a line with the same parts and view.\<close>

lemma updateLineVisibility_cong:
  "parts l1 = parts l2 \<Longrightarrow> snd (lineView l1) = snd (lineView l2) \<Longrightarrow>
   lineView (updateLineVisibility l1 p c) = lineView (updateLineVisibility l2 p c)"
  by (simp only: updateLineVisibility_view) (simp add: lineView_def)

lemma updateLineVisibility_again:
  "p \<le> p' \<Longrightarrow>
   lineView (updateLineVisibility (updateLineVisibility lineData p c) p' c') =
   lineView (updateLineVisibility lineData p' c')"
  by (simp only: updateLineVisibility_view updateLineVisibility_parts updateLineVisibility_shown
      revealViews_absorb)

lemma updateLineVisibility_full:
  "length (parts lineData) \<le> p \<Longrightarrow>
   lineView (updateLineVisibility lineData p c) =
   lineView (updateLineVisibility lineData (length (parts lineData)) 0)"
  using revealViews_full [of "parts lineData" p c] by (simp only: updateLineVisibility_view)

lemma lineView_containerY [simp]: "lineView (lineData\<lparr>containerY := y\<rparr>) = lineView lineData"
  by (simp add: lineView_def)

subsection \<open>The layout leaves the view of every part object\<close>

lemma writeStyle_shownAs [simp]: "shownAs (snd (writeStyle f h obj)) = shownAs obj"
  by (simp add: writeStyle_def shownAs_def split: option.splits StyleRef.splits)

lemma shownAs_simps [simp]:
  "shownAs (obj\<lparr>objScale := a\<rparr>) = shownAs obj"
  "shownAs (obj\<lparr>objWidth := a\<rparr>) = shownAs obj"
  "shownAs (obj\<lparr>objHeight := a\<rparr>) = shownAs obj"
  "shownAs (obj\<lparr>posX := a\<rparr>) = shownAs obj"
  "shownAs (obj\<lparr>posY := a\<rparr>) = shownAs obj"
  "shownAs (obj\<lparr>anchorX := a\<rparr>) = shownAs obj"
  "shownAs (obj\<lparr>anchorY := a\<rparr>) = shownAs obj"
  by (simp_all add: shownAs_def)

lemma map_shownAs_update:
  "shownAs x = shownAs (objs ! i) \<Longrightarrow> map shownAs (objs[i := x]) = map shownAs objs"
  by (metis list_update_id map_update)

lemma scalePart_shownAs:
  "map shownAs (fst (snd (scalePart sf ts el i (h, objs, le)))) = map shownAs objs"
  by (simp add: scalePart_def Let_def map_shownAs_update split: prod.splits)
    (metis map_shownAs_update shownAs_simps(1) snd_conv writeStyle_shownAs)

lemma fold_scalePart_shownAs:
  "map shownAs (fst (snd (fold (scalePart sf ts el) is (h, objs, le)))) = map shownAs objs"
proof (induction "is" arbitrary: h objs le)
  case Nil
  show ?case by simp
next
  case (Cons i "is")
  obtain h' objs' le' where s: "scalePart sf ts el i (h, objs, le) = (h', objs', le')"
    by (cases "scalePart sf ts el i (h, objs, le)")
  have "map shownAs objs' = map shownAs objs"
    using scalePart_shownAs [of sf ts el i h objs le] s by simp
  then show ?case using Cons.IH [of h' objs' le'] s by simp
qed

lemma placeEmoji_shownAs:
  "i < length objs \<Longrightarrow> map shownAs (fst (placeEmoji k px h i (objs, st))) = map shownAs objs"
  by (simp add: placeEmoji_def Let_def map_shownAs_update)

lemma layoutPart_shownAs:
  "map shownAs (fst (layoutPart k px h el ip (objs, st))) = map shownAs objs"
  by (cases ip) (simp add: layoutPart_def Let_def placeEmoji_shownAs)

lemma fold_layoutPart_shownAs:
  "map shownAs (fst (fold (layoutPart k px h el) ips (objs, st))) = map shownAs objs"
proof (induction ips arbitrary: objs st)
  case Nil
  show ?case by simp
next
  case (Cons ip ips)
  obtain objs' st' where s: "layoutPart k px h el ip (objs, st) = (objs', st')"
    by (cases "layoutPart k px h el ip (objs, st)")
  have "map shownAs objs' = map shownAs objs"
    using layoutPart_shownAs [of k px h el ip objs st] s by simp
  then show ?case using Cons.IH [of objs' st'] s by simp
qed

lemma updateLineLayout_shownAs:
  assumes "updateLineLayout m px h0 lineData aw = Inr (h', laidOut, fh)"
  shows "map shownAs (partObjects laidOut) = map shownAs (partObjects lineData)"
proof -
  obtain h1 ct where c: "styleCharacterText (scaleFactorFor aw) h0 (characterText lineData) = (h1, ct)"
    by (cases "styleCharacterText (scaleFactorFor aw) h0 (characterText lineData)")
  obtain h2 objs1 lefts where
    s: "scaleParts m (scaleFactorFor aw) (length (parts lineData)) (h1, partObjects lineData, [])
          = (h2, objs1, lefts)"
    by (cases "scaleParts m (scaleFactorFor aw) (length (parts lineData)) (h1, partObjects lineData, [])")
  from assms c s have core: "layoutCore m px h1 h2 lineData aw ct objs1 lefts = Inr (h', laidOut, fh)"
    by (simp add: updateLineLayout_def)
  have "map shownAs objs1 = map shownAs (partObjects lineData)"
    using fold_scalePart_shownAs
      [of "scaleFactorFor aw" "emojiSize (styles m) * scaleFactorFor aw" "shouldPositionEmojisLeft m"
          "[0..<length (parts lineData)]" h1 "partObjects lineData" "[]"] s
    by (simp add: scaleParts_def)
  moreover have "map shownAs (partObjects laidOut) = map shownAs objs1"
    using layoutCore_layout [OF core] by (simp add: layoutParts_def fold_layoutPart_shownAs)
  ultimately show ?thesis by simp
qed

lemma createDialogueLine_view:
  assumes "createDialogueLine m px h (Some l) aw = Inr (h', laidOut)"
  shows "parts laidOut = parts (createLineObjects m px (Some l))"
    and "snd (lineView laidOut) = snd (lineView (createLineObjects m px (Some l)))"
proof -
  from assms obtain fh where
    u: "updateLineLayout m px h ((createLineObjects m px (Some l))\<lparr>speakerName := name l\<rparr>) aw
          = Inr (h', laidOut, fh)"
    by (auto simp: createDialogueLine_def Let_def split: sum.splits)
  show "parts laidOut = parts (createLineObjects m px (Some l))"
    using updateLineLayout_fields(1) [OF u] by simp
  show "snd (lineView laidOut) = snd (lineView (createLineObjects m px (Some l)))"
    using updateLineLayout_shownAs [OF u] by (simp add: lineView_def)
qed

section \<open>The reveal state of the dialogue manager\<close>

text \<open>
  A line is shown to \<open>(p, c)\<close> when it has the parts of the freshly created line and looks
  like that line after \<open>updateLineVisibility\<close> with \<open>p\<close> and \<open>c\<close>. In a consistent state the
  lines before the cursor's line are shown to their end, the cursor's line to the cursor, and
  the lines after it to \<open>(0, 0)\<close>.
\<close>

definition freshLine :: "DialogueLineManager \<Rightarrow> Pixi \<Rightarrow> DialogueLine list \<Rightarrow> nat \<Rightarrow> LineRenderData" where
  "freshLine m px dlg i = createLineObjects m px (Some (dlg ! i))"

definition cursorAt :: "DialogueManager \<Rightarrow> nat \<Rightarrow> nat \<Rightarrow> nat \<times> nat" where
  "cursorAt s n i =
     (if i < currentLineIndex s then (n, 0)
      else if i = currentLineIndex s then (currentPartIndex s, currentCharacterIndex s)
      else (0, 0))"

definition lineShownTo :: "LineRenderData \<Rightarrow> nat \<times> nat \<Rightarrow> LineRenderData \<Rightarrow> bool" where
  "lineShownTo fresh pc lineData \<longleftrightarrow>
     parts lineData = parts fresh
     \<and> lineView lineData = lineView (updateLineVisibility fresh (fst pc) (snd pc))"

definition revealConsistent :: "Pixi \<Rightarrow> DialogueManager \<Rightarrow> bool" where
  "revealConsistent px s \<longleftrightarrow>
     length (linesData s) = length (dialogue s)
     \<and> (isTypingComplete s \<longrightarrow> length (linesData s) \<le> currentLineIndex s)
     \<and> (\<forall>i<length (linesData s).
           lineShownTo (freshLine (lineManager s) px (dialogue s) i)
             (cursorAt s (length (parts (linesData s ! i))) i) (linesData s ! i))"

lemma lineShownTo_show:
  assumes "lineShownTo fresh (p, c) lineData" and "p \<le> p'"
  shows "lineShownTo fresh (p', c') (updateLineVisibility lineData p' c')"
proof -
  from assms(1) have ps: "parts lineData = parts fresh"
    and v: "lineView lineData = lineView (updateLineVisibility fresh p c)"
    by (simp_all add: lineShownTo_def)
  have "lineView (updateLineVisibility lineData p' c') =
        lineView (updateLineVisibility (updateLineVisibility fresh p c) p' c')"
    by (rule updateLineVisibility_cong) (simp_all add: ps v)
  also have "\<dots> = lineView (updateLineVisibility fresh p' c')"
    by (rule updateLineVisibility_again [OF assms(2)])
  finally show ?thesis by (simp add: lineShownTo_def ps)
qed

lemma lineShownTo_full:
  assumes "lineShownTo fresh (p, c) lineData" and "length (parts fresh) \<le> p"
  shows "lineShownTo fresh (length (parts fresh), c') lineData"
  using assms updateLineVisibility_full [of fresh p c]
    updateLineVisibility_full [of fresh "length (parts fresh)" c']
  by (simp add: lineShownTo_def)

lemma lineShownTo_fresh:
  assumes "createDialogueLine m px h (Some l) aw = Inr (h', laidOut)"
  shows "lineShownTo (createLineObjects m px (Some l)) (p, c)
           (updateLineVisibility (laidOut\<lparr>containerY := y\<rparr>) p c)"
proof -
  note v = createDialogueLine_view [OF assms]
  have "lineView (updateLineVisibility (laidOut\<lparr>containerY := y\<rparr>) p c) =
        lineView (updateLineVisibility (createLineObjects m px (Some l)) p c)"
    by (rule updateLineVisibility_cong) (simp_all add: v)
  then show ?thesis by (simp add: lineShownTo_def v)
qed

subsection \<open>A typing step keeps the state consistent\<close>

lemma consistent_show:
  assumes "revealConsistent px s" and "currentLineIndex s < length (linesData s)"
    and "currentPartIndex s \<le> p'"
  shows "revealConsistent px
           (showLine (currentLineIndex s) (linesData s ! currentLineIndex s)
              (s\<lparr>currentPartIndex := p', currentCharacterIndex := c'\<rparr>))"
proof -
  let ?cur = "currentLineIndex s"
  let ?s' = "showLine ?cur (linesData s ! ?cur) (s\<lparr>currentPartIndex := p', currentCharacterIndex := c'\<rparr>)"
  have ls: "linesData ?s' = (linesData s)[?cur := updateLineVisibility (linesData s ! ?cur) p' c']"
    by (simp add: showLine_def)
  have rest: "lineManager ?s' = lineManager s" "dialogue ?s' = dialogue s"
    "currentLineIndex ?s' = ?cur" "currentPartIndex ?s' = p'" "currentCharacterIndex ?s' = c'"
    "isTypingComplete ?s' = isTypingComplete s"
    by (simp_all add: showLine_def)
  have "lineShownTo (freshLine (lineManager s) px (dialogue s) i)
          (cursorAt ?s' (length (parts (linesData ?s' ! i))) i) (linesData ?s' ! i)"
    if i: "i < length (linesData s)" for i
  proof (cases "i = ?cur")
    case True
    from assms(1) i have "lineShownTo (freshLine (lineManager s) px (dialogue s) i)
          (cursorAt s (length (parts (linesData s ! i))) i) (linesData s ! i)"
      by (simp add: revealConsistent_def)
    with True have "lineShownTo (freshLine (lineManager s) px (dialogue s) ?cur)
          (currentPartIndex s, currentCharacterIndex s) (linesData s ! ?cur)"
      by (simp add: cursorAt_def)
    from lineShownTo_show [OF this assms(3), of c'] True i show ?thesis
      by (simp add: ls cursorAt_def rest)
  next
    case False
    from assms(1) i have "lineShownTo (freshLine (lineManager s) px (dialogue s) i)
          (cursorAt s (length (parts (linesData s ! i))) i) (linesData s ! i)"
      by (simp add: revealConsistent_def)
    with False show ?thesis by (auto simp: ls cursorAt_def rest split: if_splits)
  qed
  with assms(1) show ?thesis
    unfolding revealConsistent_def [of px ?s'] rest
    by (auto simp: ls revealConsistent_def)
qed

lemma consistent_nextLine:
  assumes "revealConsistent px s"
    and "currentLineIndex s < length (linesData s) \<Longrightarrow>
           length (parts (linesData s ! currentLineIndex s)) \<le> currentPartIndex s"
  shows "revealConsistent px (nextLine s)"
proof -
  have "lineShownTo (freshLine (lineManager s) px (dialogue s) i)
          (cursorAt (nextLine s) (length (parts (linesData s ! i))) i) (linesData s ! i)"
    if i: "i < length (linesData s)" for i
  proof -
    from assms(1) i have inv: "lineShownTo (freshLine (lineManager s) px (dialogue s) i)
          (cursorAt s (length (parts (linesData s ! i))) i) (linesData s ! i)"
      by (simp add: revealConsistent_def)
    show ?thesis
    proof (cases "i = currentLineIndex s")
      case True
      from inv have ps: "parts (linesData s ! i) = parts (freshLine (lineManager s) px (dialogue s) i)"
        by (simp add: lineShownTo_def)
      from inv True have "lineShownTo (freshLine (lineManager s) px (dialogue s) i)
          (currentPartIndex s, currentCharacterIndex s) (linesData s ! i)"
        by (simp add: cursorAt_def)
      from lineShownTo_full [OF this, of 0] assms(2) i True ps show ?thesis
        by (simp add: cursorAt_def nextLine_def)
    next
      case False
      with inv show ?thesis by (auto simp: cursorAt_def nextLine_def)
    qed
  qed
  with assms(1) show ?thesis by (auto simp: revealConsistent_def nextLine_def)
qed

lemma consistent_complete:
  "revealConsistent px s \<Longrightarrow> length (linesData s) \<le> currentLineIndex s \<Longrightarrow>
   revealConsistent px (s\<lparr>isTypingComplete := True\<rparr>)"
  by (simp add: revealConsistent_def cursorAt_def)

lemma stepCursor_moves:
  "\<exists>p' c'. stepCursor part s = s\<lparr>currentPartIndex := p', currentCharacterIndex := c'\<rparr>
           \<and> currentPartIndex s \<le> p'"
proof -
  have "s = s\<lparr>currentPartIndex := currentPartIndex s, currentCharacterIndex := currentCharacterIndex s\<rparr>"
    by simp
  then have same: "\<exists>p' c'. s = s\<lparr>currentPartIndex := p', currentCharacterIndex := c'\<rparr>
      \<and> currentPartIndex s \<le> p'"
    by (metis order_refl)
  have "s\<lparr>currentCharacterIndex := c\<rparr> = s\<lparr>currentPartIndex := currentPartIndex s, currentCharacterIndex := c\<rparr>"
    for c by simp
  then have chr: "\<exists>p' c'. s\<lparr>currentCharacterIndex := c\<rparr> = s\<lparr>currentPartIndex := p', currentCharacterIndex := c'\<rparr>
      \<and> currentPartIndex s \<le> p'" for c
    by (metis order_refl)
  have nxt: "\<exists>p' c'. s\<lparr>currentCharacterIndex := c, currentPartIndex := currentPartIndex s + 1\<rparr>
       = s\<lparr>currentPartIndex := p', currentCharacterIndex := c'\<rparr> \<and> currentPartIndex s \<le> p'" for c
    by (rule exI [of _ "currentPartIndex s + 1"], rule exI [of _ c]) simp
  show ?thesis
    using same chr nxt by (simp add: stepCursor_def Let_def)
qed

lemma advanceTyping_consistent:
  assumes "revealConsistent px s"
  shows "revealConsistent px (advanceTyping s)"
proof (cases "isTypingComplete s")
  case True
  with assms show ?thesis by (simp add: advanceTyping_def)
next
  case False
  note incomplete = this
  show ?thesis
  proof (cases "currentLineIndex s < length (linesData s)")
    case False
    with incomplete assms show ?thesis
      by (simp add: advanceTyping_def nthOpt_def consistent_complete)
  next
    case True
    note line = this
    let ?L = "linesData s ! currentLineIndex s"
    show ?thesis
    proof (cases "currentPartIndex s < length (parts ?L)")
      case False
      then have nl: "revealConsistent px (nextLine s)"
        using consistent_nextLine [OF assms] by simp
      have cur: "currentLineIndex (nextLine s) = Suc (currentLineIndex s)"
        "linesData (nextLine s) = linesData s" "currentPartIndex (nextLine s) = 0"
        by (simp_all add: nextLine_def)
      have eq: "advanceTyping s =
          (if length (linesData s) \<le> Suc (currentLineIndex s)
           then (nextLine s)\<lparr>isTypingComplete := True\<rparr>
           else showLine (Suc (currentLineIndex s)) (linesData s ! Suc (currentLineIndex s)) (nextLine s))"
        using incomplete line False by (simp add: advanceTyping_def nthOpt_def Let_def cur)
      show ?thesis
      proof (cases "length (linesData s) \<le> Suc (currentLineIndex s)")
        case True
        with consistent_complete [OF nl] show ?thesis by (simp add: eq cur)
      next
        case False
        have "nextLine s = (nextLine s)\<lparr>currentPartIndex := 0, currentCharacterIndex := 0\<rparr>"
          by (simp add: nextLine_def)
        with consistent_show [OF nl, of 0 0] False show ?thesis
          by (simp add: eq cur)
      qed
    next
      case True
      let ?part = "parts ?L ! currentPartIndex s"
      obtain p' c' where
        mv: "stepCursor ?part s = s\<lparr>currentPartIndex := p', currentCharacterIndex := c'\<rparr>"
        and le: "currentPartIndex s \<le> p'"
        using stepCursor_moves by blast
      let ?s2 = "showLine (currentLineIndex s) ?L (s\<lparr>currentPartIndex := p', currentCharacterIndex := c'\<rparr>)"
      have s2: "revealConsistent px ?s2" by (rule consistent_show [OF assms line le])
      have f2: "currentLineIndex ?s2 = currentLineIndex s" "currentPartIndex ?s2 = p'"
        "length (linesData ?s2) = length (linesData s)"
        "parts (linesData ?s2 ! currentLineIndex s) = parts ?L"
        using line by (simp_all add: showLine_def)
      have eq: "advanceTyping s =
          (if length (parts ?L) \<le> p' then
             (if length (linesData s) \<le> Suc (currentLineIndex s)
              then (nextLine ?s2)\<lparr>isTypingComplete := True\<rparr> else nextLine ?s2)
           else ?s2)"
        using incomplete line True
        by (simp add: advanceTyping_def nthOpt_def Let_def mv f2) (simp add: nextLine_def showLine_def)
      show ?thesis
      proof (cases "length (parts ?L) \<le> p'")
        case False
        with s2 show ?thesis by (simp add: eq)
      next
        case True
        have nl: "revealConsistent px (nextLine ?s2)"
          using consistent_nextLine [OF s2] True f2 by simp
        have "length (linesData (nextLine ?s2)) \<le> currentLineIndex (nextLine ?s2)"
          if "length (linesData s) \<le> Suc (currentLineIndex s)"
          using that by (simp add: nextLine_def showLine_def)
        with consistent_complete [OF nl] nl True show ?thesis by (simp add: eq)
      qed
    qed
  qed
qed

subsection \<open>update, resize and appendMessage keep the state consistent\<close>

lemma revealConsistent_frame [simp]:
  "revealConsistent px (s\<lparr>lineRevealAccumulator := a\<rparr>) = revealConsistent px s"
  "revealConsistent px (s\<lparr>scrollManager := sm\<rparr>) = revealConsistent px s"
  "revealConsistent px (s\<lparr>styleInstances := h\<rparr>) = revealConsistent px s"
  by (simp_all add: revealConsistent_def cursorAt_def)

lemma typingLoop_consistent:
  assumes "typingLoop crt s = Some s'" and "revealConsistent px s"
  shows "revealConsistent px s'"
proof -
  have "revealConsistent px s \<longrightarrow> revealConsistent px s'"
  proof (rule typingLoop.raw_induct
      [where P = "\<lambda>c a b. revealConsistent px a \<longrightarrow> revealConsistent px b", OF _ assms(1)])
    fix loop :: "real \<Rightarrow> DialogueManager \<Rightarrow> DialogueManager option" and c a b
    assume IH: "\<And>c a b. loop c a = Some b \<Longrightarrow> revealConsistent px a \<longrightarrow> revealConsistent px b"
      and body: "(if c \<le> lineRevealAccumulator a
                  then loop c (advanceTyping (a\<lparr>lineRevealAccumulator := lineRevealAccumulator a - c\<rparr>))
                  else Some a) = Some b"
    show "revealConsistent px a \<longrightarrow> revealConsistent px b"
    proof (cases "c \<le> lineRevealAccumulator a")
      case True
      with body have "loop c (advanceTyping (a\<lparr>lineRevealAccumulator := lineRevealAccumulator a - c\<rparr>)) = Some b"
        by simp
      from IH [OF this] show ?thesis by (simp add: advanceTyping_consistent)
    next
      case False
      with body show ?thesis by simp
    qed
  qed
  with assms(2) show ?thesis by simp
qed

lemma update_consistent:
  assumes "update deltaMS s = Some s'" and "revealConsistent px s"
  shows "revealConsistent px s'"
proof (cases "isTypingComplete s")
  case True
  with assms show ?thesis by (auto simp: update_def)
next
  case False
  let ?s1 = "s\<lparr>lineRevealAccumulator := lineRevealAccumulator s + deltaMS\<rparr>"
  let ?speed = "typingSpeed (styles (lineManager s))"
  define r where "r = (if ?speed = 0 then Some ?s1 else typingLoop (1000 / ?speed) ?s1)"
  have u: "update deltaMS s =
      (case r of None \<Rightarrow> None
       | Some s2 \<Rightarrow> Some (s2\<lparr>scrollManager :=
                (if \<not> isTypingComplete s2 then scrollToBottom (updateScroll deltaMS (scrollManager s2))
                 else updateScroll deltaMS (scrollManager s2))\<rparr>))"
    using False by (simp add: update_def Let_def r_def split: option.splits)
  with assms(1) obtain s2 where s2: "r = Some s2"
    and s': "s' = s2\<lparr>scrollManager :=
                (if \<not> isTypingComplete s2 then scrollToBottom (updateScroll deltaMS (scrollManager s2))
                 else updateScroll deltaMS (scrollManager s2))\<rparr>"
    by (cases r) auto
  have "revealConsistent px s2"
  proof (cases "?speed = 0")
    case True
    with s2 assms(2) show ?thesis by (auto simp: r_def)
  next
    case False
    with s2 have "typingLoop (1000 / ?speed) ?s1 = Some s2" by (simp add: r_def)
    from typingLoop_consistent [OF this] assms(2) show ?thesis by simp
  qed
  then show ?thesis by (simp add: s')
qed

text \<open>A line that \<open>createDialogueLine\<close> has laid out at a width, shown to some cursor.\<close>

definition laidOutAt :: "DialogueLineManager \<Rightarrow> Pixi \<Rightarrow> DialogueLine \<Rightarrow> real \<Rightarrow> LineRenderData \<Rightarrow> bool" where
  "laidOutAt m px line aw lineData \<longleftrightarrow>
     (\<exists>h h' laidOut y p c. createDialogueLine m px h (Some line) aw = Inr (h', laidOut)
        \<and> lineData = updateLineVisibility (laidOut\<lparr>containerY := y\<rparr>) p c)"

lemma rebuildLine_shown:
  assumes "idx < length (dialogue s)"
  shows "\<exists>y' h' shown. rebuildLine s px aw sp idx (y, h, ls) = Inr (y', h', ls[idx := shown])
           \<and> lineShownTo (freshLine (lineManager s) px (dialogue s) idx)
                (cursorAt s (length (parts shown)) idx) shown
           \<and> laidOutAt (lineManager s) px (dialogue s ! idx) aw shown"
proof -
  obtain h' laidOut where
    c: "createDialogueLine (lineManager s) px h (Some (dialogue s ! idx)) aw = Inr (h', laidOut)"
    using createDialogueLine_Inr by blast
  let ?new = "laidOut\<lparr>containerY := y\<rparr>"
  let ?pc = "cursorAt s (length (parts ?new)) idx"
  have "rebuildLine s px aw sp idx (y, h, ls) =
          Inr (y + containerHeight ?new + sp, h', ls[idx := updateLineVisibility ?new (fst ?pc) (snd ?pc)])"
    using assms c by (simp add: rebuildLine_def nthOpt_def Let_def cursorAt_def)
  moreover have "lineShownTo (freshLine (lineManager s) px (dialogue s) idx)
      (cursorAt s (length (parts (updateLineVisibility ?new (fst ?pc) (snd ?pc)))) idx)
      (updateLineVisibility ?new (fst ?pc) (snd ?pc))"
    using lineShownTo_fresh [OF c, of "fst ?pc" "snd ?pc" y] by (simp add: freshLine_def)
  moreover have "laidOutAt (lineManager s) px (dialogue s ! idx) aw
      (updateLineVisibility ?new (fst ?pc) (snd ?pc))"
    unfolding laidOutAt_def using c by blast
  ultimately show ?thesis by blast
qed

lemma rebuildLines_shown:
  assumes "\<forall>idx\<in>set is. idx < length (dialogue s)"
  shows "\<exists>y' h' ls'. rebuildLines s px aw sp is (y, h, ls) = Inr (y', h', ls')
           \<and> length ls' = length ls
           \<and> (\<forall>i<length ls.
                 if i \<in> set is
                 then lineShownTo (freshLine (lineManager s) px (dialogue s) i)
                        (cursorAt s (length (parts (ls' ! i))) i) (ls' ! i)
                      \<and> laidOutAt (lineManager s) px (dialogue s ! i) aw (ls' ! i)
                 else ls' ! i = ls ! i)"
  using assms
proof (induction "is" arbitrary: y h ls)
  case Nil
  show ?case by simp
next
  case (Cons idx "is")
  from Cons.prems have idx: "idx < length (dialogue s)" by simp
  from rebuildLine_shown [OF idx, of px aw sp y h ls]
  obtain y1 h1 shown where
    r: "rebuildLine s px aw sp idx (y, h, ls) = Inr (y1, h1, ls[idx := shown])"
    and sh: "lineShownTo (freshLine (lineManager s) px (dialogue s) idx)
               (cursorAt s (length (parts shown)) idx) shown"
      "laidOutAt (lineManager s) px (dialogue s ! idx) aw shown"
    by blast
  from Cons.IH [of y1 h1 "ls[idx := shown]"] Cons.prems
  obtain y' h' ls' where
    rest: "rebuildLines s px aw sp is (y1, h1, ls[idx := shown]) = Inr (y', h', ls')"
    and len: "length ls' = length ls"
    and each: "\<forall>i<length ls.
                 if i \<in> set is
                 then lineShownTo (freshLine (lineManager s) px (dialogue s) i)
                        (cursorAt s (length (parts (ls' ! i))) i) (ls' ! i)
                      \<and> laidOutAt (lineManager s) px (dialogue s ! i) aw (ls' ! i)
                 else ls' ! i = ls[idx := shown] ! i"
    by auto
  have "\<forall>i<length ls.
          if i \<in> set (idx # is)
          then lineShownTo (freshLine (lineManager s) px (dialogue s) i)
                 (cursorAt s (length (parts (ls' ! i))) i) (ls' ! i)
               \<and> laidOutAt (lineManager s) px (dialogue s ! i) aw (ls' ! i)
          else ls' ! i = ls ! i"
  proof (intro allI impI)
    fix i assume i: "i < length ls"
    show "if i \<in> set (idx # is)
          then lineShownTo (freshLine (lineManager s) px (dialogue s) i)
                 (cursorAt s (length (parts (ls' ! i))) i) (ls' ! i)
               \<and> laidOutAt (lineManager s) px (dialogue s ! i) aw (ls' ! i)
          else ls' ! i = ls ! i"
    proof (cases "i \<in> set is")
      case True
      with each i show ?thesis by simp
    next
      case False
      with each i have e: "ls' ! i = ls[idx := shown] ! i" by simp
      show ?thesis
      proof (cases "i = idx")
        case True
        with e i sh False show ?thesis by simp
      next
        case False
        with e i \<open>i \<notin> set is\<close> show ?thesis by simp
      qed
    qed
  qed
  with r rest len show ?case by simp
qed

lemma resize_consistent:
  assumes "revealConsistent px s"
  shows "\<exists>s'. resize px width height s = Inr s' \<and> revealConsistent px s'
           \<and> currentLineIndex s' = currentLineIndex s
           \<and> currentPartIndex s' = currentPartIndex s
           \<and> currentCharacterIndex s' = currentCharacterIndex s
           \<and> isTypingComplete s' = isTypingComplete s
           \<and> dialogue s' = dialogue s \<and> lineManager s' = lineManager s
           \<and> length (linesData s') = length (linesData s)
           \<and> (\<forall>i<length (linesData s).
                 parts (linesData s' ! i) = parts (linesData s ! i)
                 \<and> lineView (linesData s' ! i) = lineView (linesData s ! i)
                 \<and> laidOutAt (lineManager s) px (dialogue s ! i)
                       (width - dialoguePadding (styles (lineManager s)) * 2) (linesData s' ! i))"
proof -
  from assms have len: "length (linesData s) = length (dialogue s)"
    by (simp add: revealConsistent_def)
  let ?aw = "width - dialoguePadding (styles (lineManager s)) * 2"
  let ?sp = "lineSpacing (styles (lineManager s)) * min 1 (max (8 / 10) (width / 800))"
  have "\<forall>idx\<in>set [0..<length (linesData s)]. idx < length (dialogue s)"
    using len by simp
  from rebuildLines_shown [OF this, of px ?aw ?sp 0 "styleInstances s" "linesData s"]
  obtain y' h' ls' where
    r: "rebuildLines s px ?aw ?sp [0..<length (linesData s)] (0, styleInstances s, linesData s)
          = Inr (y', h', ls')"
    and l: "length ls' = length (linesData s)"
    and each: "\<forall>i<length (linesData s).
                 lineShownTo (freshLine (lineManager s) px (dialogue s) i)
                   (cursorAt s (length (parts (ls' ! i))) i) (ls' ! i)"
    and laid: "\<forall>i<length (linesData s). laidOutAt (lineManager s) px (dialogue s ! i) ?aw (ls' ! i)"
    by auto
  obtain mh cy where m: "updateMask px (styles (lineManager s)) width height = (mh, cy)"
    by (cases "updateMask px (styles (lineManager s)) width height")
  define sm where "sm = updateContentHeight y' ((scrollManager s)\<lparr>maskHeight := mh, dialogueContainerY := cy\<rparr>)"
  define s' where "s' = s\<lparr>linesData := ls', styleInstances := h',
      scrollManager := (if \<not> isTypingComplete s \<and> currentLineIndex s < length ls'
                        then scrollToPosition (containerY (ls' ! currentLineIndex s)) sm else sm)\<rparr>"
  have res: "resize px width height s = Inr s'"
    using r by (simp add: resize_def m Let_def s'_def sm_def)
  have same: "parts (ls' ! i) = parts (linesData s ! i) \<and> lineView (ls' ! i) = lineView (linesData s ! i)
      \<and> laidOutAt (lineManager s) px (dialogue s ! i) ?aw (ls' ! i)"
    if i: "i < length (linesData s)" for i
  proof -
    from each i have a: "lineShownTo (freshLine (lineManager s) px (dialogue s) i)
                   (cursorAt s (length (parts (ls' ! i))) i) (ls' ! i)" by simp
    from assms i have b: "lineShownTo (freshLine (lineManager s) px (dialogue s) i)
                   (cursorAt s (length (parts (linesData s ! i))) i) (linesData s ! i)"
      by (simp add: revealConsistent_def)
    from a b have "parts (ls' ! i) = parts (linesData s ! i)" by (simp add: lineShownTo_def)
    with a b laid i show ?thesis by (simp add: lineShownTo_def)
  qed
  have "revealConsistent px (s\<lparr>linesData := ls'\<rparr>)"
    using assms each l by (auto simp: revealConsistent_def cursorAt_def)
  then have "revealConsistent px s'" by (simp add: s'_def)
  with res same l show ?thesis by (intro exI [of _ s']) (simp add: s'_def)
qed

lemma appendMessage_consistent:
  assumes "revealConsistent px s" and "isTypingComplete s"
    and "appendMessage px app line s = Inr s'"
  shows "revealConsistent px s'"
proof -
  define y where "y = (if length (linesData s) > 0 then
               (let lastLine = linesData s ! (length (linesData s) - 1)
                in containerY lastLine + containerHeight lastLine
                     + lineSpacing (styles (lineManager s)))
             else 0)"
  obtain h' laidOut where
    c: "createDialogueLine (lineManager s) px (styleInstances s) (Some line)
          (screenWidth app - dialoguePadding (styles (lineManager s)) * 2) = Inr (h', laidOut)"
    by (rule appendMessage_Inr)
  let ?new = "updateLineVisibility (laidOut\<lparr>containerY := y\<rparr>) 0 0"
  from assms(3) c have f: "linesData s' = linesData s @ [?new]" "dialogue s' = dialogue s @ [line]"
    "currentLineIndex s' = length (linesData s)" "currentPartIndex s' = 0"
    "currentCharacterIndex s' = 0" "\<not> isTypingComplete s'" "lineManager s' = lineManager s"
    by (auto simp: appendMessage_def Let_def y_def split: if_splits)
  from assms(1) have len: "length (linesData s) = length (dialogue s)"
    by (simp add: revealConsistent_def)
  from assms(1,2) have fin: "length (linesData s) \<le> currentLineIndex s"
    by (simp add: revealConsistent_def)
  have "lineShownTo (freshLine (lineManager s') px (dialogue s') i)
          (cursorAt s' (length (parts (linesData s' ! i))) i) (linesData s' ! i)"
    if i: "i < length (linesData s')" for i
  proof (cases "i < length (linesData s)")
    case True
    with assms(1) have "lineShownTo (freshLine (lineManager s) px (dialogue s) i)
          (cursorAt s (length (parts (linesData s ! i))) i) (linesData s ! i)"
      by (simp add: revealConsistent_def)
    with True fin len show ?thesis
      by (simp add: f cursorAt_def nth_append freshLine_def)
  next
    case False
    with i have i: "i = length (linesData s)" by (simp add: f)
    have a: "linesData s' ! i = ?new" using i by (simp add: f)
    have b: "dialogue s' ! i = line" using i len by (simp add: f)
    have cu: "cursorAt s' n i = (0, 0)" for n using i by (simp add: cursorAt_def f)
    from lineShownTo_fresh [OF c, of 0 0 y] show ?thesis
      by (simp add: a b cu freshLine_def f(7))
  qed
  then show ?thesis using len by (simp add: revealConsistent_def f)
qed

lemma initializeLines_shown:
  "\<exists>y' h' ls'. initializeLines m px aw dl (y, h, ls) = Inr (y', h', ls')
     \<and> length ls' = length ls + length dl
     \<and> (\<forall>i<length ls. ls' ! i = ls ! i)
     \<and> (\<forall>j<length dl. lineShownTo (createLineObjects m px (Some (dl ! j))) (0, 0)
                          (ls' ! (length ls + j)))"
proof (induction dl arbitrary: y h ls)
  case Nil
  show ?case by simp
next
  case (Cons line dl)
  obtain h1 laidOut where c: "createDialogueLine m px h (Some line) aw = Inr (h1, laidOut)"
    using createDialogueLine_Inr by blast
  let ?new = "updateLineVisibility (laidOut\<lparr>containerY := y\<rparr>) 0 0"
  let ?y1 = "y + containerHeight laidOut + lineSpacing (styles m)"
  from Cons.IH [of ?y1 h1 "ls @ [?new]"]
  obtain y' h' ls' where
    r: "initializeLines m px aw dl (?y1, h1, ls @ [?new]) = Inr (y', h', ls')"
    and len: "length ls' = length ls + 1 + length dl"
    and old: "\<forall>i<length ls + 1. ls' ! i = (ls @ [?new]) ! i"
    and new: "\<forall>j<length dl. lineShownTo (createLineObjects m px (Some (dl ! j))) (0, 0)
                          (ls' ! (length ls + 1 + j))"
    by auto
  have "initializeLines m px aw (line # dl) (y, h, ls) = Inr (y', h', ls')"
    using c r by (simp add: Let_def)
  moreover have "\<forall>i<length ls. ls' ! i = ls ! i"
    using old by (auto simp: nth_append)
  moreover have "lineShownTo (createLineObjects m px (Some ((line # dl) ! j))) (0, 0)
                          (ls' ! (length ls + j))" if "j < length (line # dl)" for j
  proof (cases j)
    case 0
    from old have "ls' ! length ls = ?new" by (auto simp: nth_append)
    with lineShownTo_fresh [OF c, of 0 0 y] 0 show ?thesis by simp
  next
    case (Suc j')
    with new that show ?thesis by simp
  qed
  ultimately show ?case using len by auto
qed

lemma newDialogueManager_Inr:
  "\<exists>s. newDialogueManager px app h dialogueData emojiTex avatarTex st = Inr s"
proof -
  obtain mh cy where m: "updateMask px st (screenWidth app) (screenHeight app) = (mh, cy)"
    by (cases "updateMask px st (screenWidth app) (screenHeight app)")
  show ?thesis
    using initializeLines_shown
      [of "\<lparr> styles = st,
              emojiManager = \<lparr> emojiTextures = emojiTex, em_emojiSize = emojiSize st,
                               em_missingEmojiStyle = missingEmojiStyle st \<rparr>,
              avatarManager = \<lparr> avatarTextures = avatarTex, am_avatarSize = avatarSize st,
                                am_avatarPadding = avatarPadding st \<rparr> \<rparr>"
          px "screenWidth app - dialoguePadding st * 2" dialogueData 0 h "[]"]
    by (auto simp: newDialogueManager_def initializeDialogue_def m)
qed

lemma newDialogueManager_fields:
  assumes "newDialogueManager px app h dialogueData emojiTex avatarTex st = Inr s"
  shows "styles (lineManager s) = st" and "dialogue s = dialogueData"
    and "currentLineIndex s = 0" and "currentPartIndex s = 0" and "currentCharacterIndex s = 0"
    and "lineRevealAccumulator s = 0" and "\<not> isTypingComplete s"
  using assms
  by (auto simp: newDialogueManager_def initializeDialogue_def split: prod.splits sum.splits)

lemma newDialogueManager_consistent:
  assumes "newDialogueManager px app h dialogueData emojiTex avatarTex st = Inr s"
  shows "revealConsistent px s"
proof -
  obtain mh cy where m: "updateMask px st (screenWidth app) (screenHeight app) = (mh, cy)"
    by (cases "updateMask px st (screenWidth app) (screenHeight app)")
  let ?m = "\<lparr> styles = st,
              emojiManager = \<lparr> emojiTextures = emojiTex, em_emojiSize = emojiSize st,
                               em_missingEmojiStyle = missingEmojiStyle st \<rparr>,
              avatarManager = \<lparr> avatarTextures = avatarTex, am_avatarSize = avatarSize st,
                                am_avatarPadding = avatarPadding st \<rparr> \<rparr>"
  from initializeLines_shown [of ?m px "screenWidth app - dialoguePadding st * 2" dialogueData 0 h "[]"]
  obtain y' h' ls' where
    r: "initializeLines ?m px (screenWidth app - dialoguePadding st * 2) dialogueData (0, h, [])
          = Inr (y', h', ls')"
    and len: "length ls' = length dialogueData"
    and new: "\<forall>j<length dialogueData. lineShownTo (createLineObjects ?m px (Some (dialogueData ! j)))
                 (0, 0) (ls' ! j)"
    by auto
  from assms r have f: "linesData s = ls'" "dialogue s = dialogueData" "lineManager s = ?m"
    "currentLineIndex s = 0" "currentPartIndex s = 0" "currentCharacterIndex s = 0"
    "\<not> isTypingComplete s"
    by (auto simp: newDialogueManager_def initializeDialogue_def m)
  show ?thesis
    using len new by (simp add: revealConsistent_def f cursorAt_def freshLine_def)
qed

section \<open>The states a dialogue manager reaches\<close>

text \<open>
  The states reached from the constructor by \<open>update\<close>, \<open>resize\<close>, \<open>appendMessage\<close> called once
  typing is complete (as \<open>MagicWordsScene\<close> calls it), and the events of the scroll manager,
  which change the scroll manager only.
\<close>

inductive reachableDialogue :: "Pixi \<Rightarrow> DialogueManager \<Rightarrow> bool" for px where
  rd_new: "newDialogueManager px app h dialogueData emojiTex avatarTex st = Inr s
           \<Longrightarrow> reachableDialogue px s"
| rd_update: "reachableDialogue px s \<Longrightarrow> update deltaMS s = Some s' \<Longrightarrow> reachableDialogue px s'"
| rd_resize: "reachableDialogue px s \<Longrightarrow> resize px width height s = Inr s'
              \<Longrightarrow> reachableDialogue px s'"
| rd_append: "reachableDialogue px s \<Longrightarrow> isTypingComplete s
              \<Longrightarrow> appendMessage px app line s = Inr s' \<Longrightarrow> reachableDialogue px s'"
| rd_scroll: "reachableDialogue px s \<Longrightarrow> reachableDialogue px (s\<lparr>scrollManager := sm\<rparr>)"

lemma reachableDialogue_consistent: "reachableDialogue px s \<Longrightarrow> revealConsistent px s"
proof (induction rule: reachableDialogue.induct)
  case (rd_new app h dialogueData emojiTex avatarTex st s)
  then show ?case by (rule newDialogueManager_consistent)
next
  case (rd_update s deltaMS s')
  then show ?case using update_consistent by blast
next
  case (rd_resize s width height s')
  with resize_consistent [of px s width height] show ?case by auto
next
  case (rd_append s app line s')
  then show ?case using appendMessage_consistent by blast
next
  case (rd_scroll s sm)
  then show ?case by simp
qed

section \<open>A sample dialogue\<close>

declare typingLoop.simps [code]

definition ok :: "jsError + 'a \<Rightarrow> 'a option" where
  "ok r = (case r of Inl e \<Rightarrow> None | Inr v \<Rightarrow> Some v)"

definition typingCursor :: "DialogueManager \<Rightarrow> nat \<times> nat \<times> nat" where
  "typingCursor s = (currentLineIndex s, currentPartIndex s, currentCharacterIndex s)"

definition revealState :: "LineRenderData \<Rightarrow> bool \<times> (bool \<times> string) list" where
  "revealState lineData =
     (visible (characterText lineData), map (\<lambda>obj. (visible obj, objText obj)) (partObjects lineData))"

definition shownLines :: "DialogueManager \<Rightarrow> (bool \<times> (bool \<times> string) list) list" where
  "shownLines s = map revealState (linesData s)"

definition demoApp :: Application where
  "demoApp = \<lparr>screenWidth = 800, screenHeight = 600\<rparr>"

definition demoDialogue :: "DialogueLine list" where
  "demoDialogue = [\<lparr>name = Some ''A'', text' = Some ''ab''\<rparr>, \<lparr>name = Some ''B'', text' = Some ''c''\<rparr>]"

definition demoStart :: "DialogueManager option" where
  "demoStart = ok (newDialogueManager demoPixi demoApp demoHeap demoDialogue
                     (emojiTextures (emojiManager demoManager)) Map.empty demoStyles)"

definition demoTyped :: "DialogueManager option" where
  "demoTyped = Option.bind demoStart (update 100)"

definition demoInterrupted :: "DialogueManager option" where
  "demoInterrupted =
     Option.bind demoTyped (\<lambda>s. ok (appendMessage demoPixi demoApp \<lparr>name = Some ''A'', text' = Some ''d''\<rparr> s))"

definition demoResize :: "DialogueManager option \<Rightarrow> DialogueManager option" where
  "demoResize r = Option.bind r (\<lambda>s. ok (resize demoPixi 640 480 s))"

section \<open>Resizing keeps what is shown\<close>

text \<open>
  \<open>shownUpTo p c\<close> says what a line shows at the cursor \<open>(p, c)\<close>: the parts before \<open>p\<close> are
  visible, a text among them with its whole content; part \<open>p\<close> shows the first \<open>c\<close> characters
  if it is a text, and is visible from \<open>c = 1\<close> on if it is an emoji; the parts after \<open>p\<close> are
  hidden.
\<close>

definition partShownUpTo :: "nat \<Rightarrow> nat \<Rightarrow> nat \<Rightarrow> DialoguePart \<Rightarrow> DisplayObject \<Rightarrow> bool" where
  "partShownUpTo p c j part obj \<longleftrightarrow>
     (if j < p then visible obj \<and> (type part = PText \<longrightarrow> objText obj = content part)
      else if j = p then
        (if type part = PText then visible obj \<and> objText obj = take c (content part)
         else visible obj = (c > 0))
      else \<not> visible obj)"

definition shownUpTo :: "nat \<Rightarrow> nat \<Rightarrow> LineRenderData \<Rightarrow> bool" where
  "shownUpTo p c lineData \<longleftrightarrow>
     length (partObjects lineData) = length (parts lineData)
     \<and> (\<forall>j<length (parts lineData).
           partShownUpTo p c j (parts lineData ! j) (partObjects lineData ! j))"

definition textOrEmoji :: "DialoguePart \<Rightarrow> bool" where
  "textOrEmoji part \<longleftrightarrow> type part = PText \<or> type part = PEmoji"

lemma parseLoop_types:
  "list_all textOrEmoji ps \<Longrightarrow> list_all textOrEmoji (fst (parseLoop t i ps))"
proof (induction t i ps rule: parseLoop.induct)
  case (1 t i ps)
  show ?case
  proof (cases "pattern_exec t i")
    case None
    then show ?thesis using "1.prems" by (simp add: parseLoop.simps [of t i])
  next
    case (Some m)
    obtain idx nxt nm where m: "m = (idx, nxt, nm)" by (cases m)
    show ?thesis
      using "1.IH" [OF Some [unfolded m] refl refl] Some m "1.prems"
      by (simp add: parseLoop.simps [of t i] textOrEmoji_def)
  qed
qed

lemma parseLine_types: "list_all textOrEmoji (parseLine t)"
proof (cases "t = []")
  case True
  then show ?thesis by (simp add: parseLine_def textOrEmoji_def)
next
  case False
  have "list_all textOrEmoji (fst (parseLoop t 0 []))"
    by (rule parseLoop_types) simp
  with False show ?thesis
    by (auto simp: parseLine_def Let_def textOrEmoji_def split: prod.splits)
qed

lemma createPartObject_single:
  "textOrEmoji part \<Longrightarrow>
   \<exists>obj. createPartObject m px part = [obj] \<and> (type part = PText \<longrightarrow> kind obj = TextKind)"
  by (auto simp: createPartObject_def textOrEmoji_def newText_def split: sum.splits)

lemma concat_singletons:
  "\<forall>x\<in>set xs. \<exists>y. f x = [y] \<and> P x y \<Longrightarrow>
   length (concat (map f xs)) = length xs \<and> (\<forall>j<length xs. P (xs ! j) (concat (map f xs) ! j))"
proof (induction xs)
  case Nil
  show ?case by simp
next
  case (Cons x xs)
  from Cons.prems obtain y where y: "f x = [y]" "P x y" by auto
  from Cons.IH Cons.prems have IH: "length (concat (map f xs)) = length xs"
    "\<forall>j<length xs. P (xs ! j) (concat (map f xs) ! j)" by auto
  show ?case using y IH by (auto simp: nth_Cons')
qed

lemma createLineObjects_objects:
  "length (partObjects (createLineObjects m px line)) = length (parts (createLineObjects m px line))"
  "j < length (parts (createLineObjects m px line)) \<Longrightarrow>
   textOrEmoji (parts (createLineObjects m px line) ! j)
   \<and> (type (parts (createLineObjects m px line) ! j) = PText \<longrightarrow>
        kind (partObjects (createLineObjects m px line) ! j) = TextKind)"
proof -
  let ?txt = "orDefault (case line of None \<Rightarrow> None | Some l \<Rightarrow> text' l) []"
  have ps: "parts (createLineObjects m px line) = parseLine ?txt"
    and objs: "partObjects (createLineObjects m px line) =
                 concat (map (createPartObject m px) (parseLine ?txt))"
    by (simp_all add: createLineObjects_def Let_def)
  have "\<forall>x\<in>set (parseLine ?txt). \<exists>y. createPartObject m px x = [y]
          \<and> (textOrEmoji x \<and> (type x = PText \<longrightarrow> kind y = TextKind))"
    using parseLine_types [of ?txt] createPartObject_single [of _ m px]
    by (auto simp: list_all_iff)
  from concat_singletons [OF this]
  show "length (partObjects (createLineObjects m px line)) = length (parts (createLineObjects m px line))"
    and "j < length (parts (createLineObjects m px line)) \<Longrightarrow>
   textOrEmoji (parts (createLineObjects m px line) ! j)
   \<and> (type (parts (createLineObjects m px line) ! j) = PText \<longrightarrow>
        kind (partObjects (createLineObjects m px line) ! j) = TextKind)"
    by (simp_all add: ps objs)
qed

lemma substring_from_0: "substring s 0 c = take c s"
  by (simp add: substring_def Let_def min_def)

lemma lineShownTo_shownUpTo:
  assumes "lineShownTo (createLineObjects m px line) (p, c) lineData"
  shows "visible (characterText lineData) \<and> shownUpTo p c lineData"
proof -
  let ?F = "createLineObjects m px line"
  from assms have ps: "parts lineData = parts ?F"
    and v: "lineView lineData = lineView (updateLineVisibility ?F p c)"
    by (simp_all add: lineShownTo_def)
  from v have lab: "visible (characterText lineData)"
    and objs: "map shownAs (partObjects lineData) =
                 revealViews p c (parts ?F) (map shownAs (partObjects ?F))"
    by (simp_all add: updateLineVisibility_view) (simp_all add: lineView_def)
  from objs have "length (map shownAs (partObjects lineData)) = length (partObjects ?F)"
    by simp
  then have len: "length (partObjects lineData) = length (parts lineData)"
    by (simp add: createLineObjects_objects(1) ps)
  have "partShownUpTo p c j (parts lineData ! j) (partObjects lineData ! j)"
    if j: "j < length (parts lineData)" for j
  proof -
    from j have jF: "j < length (parts ?F)" by (simp add: ps)
    note k = createLineObjects_objects(2) [OF jF]
    have "shownAs (partObjects lineData ! j) = map shownAs (partObjects lineData) ! j"
      using j len by simp
    also have "\<dots> = revealView p c j (parts ?F ! j) (shownAs (partObjects ?F ! j))"
      using jF by (simp add: objs revealViews_def createLineObjects_objects(1))
    finally have "shownAs (partObjects lineData ! j) =
        revealView p c j (parts ?F ! j) (shownAs (partObjects ?F ! j))" .
    with k show ?thesis
      by (auto simp: partShownUpTo_def ps shownAs_def revealView_def textOrEmoji_def
          substring_from_0 split: if_splits)
  qed
  with lab len show ?thesis by (simp add: shownUpTo_def)
qed

lemma revealState_lineView: "revealState lineData = (fst (lineView lineData), map snd (snd (lineView lineData)))"
  by (simp add: revealState_def lineView_def shownAs_def)

text \<open>
  C1 (as stated, refuted). The sample dialogue has two lines and the cursor on the first:
  after \<open>resize\<close> the second line, which is above the cursor's line index, has its speaker
  label visible (and its text object visible with no characters). And after one character of
  the first line has been typed and a message appended before typing is complete, the cursor
  is on the third line, the first line shows "a" and the second nothing; \<open>resize\<close> then shows
  "ab" and "c".
\<close>

theorem resize_shows_labels_of_later_lines:
  "map_option typingCursor (demoResize demoStart) = Some (0, 0, 0)
   \<and> map_option shownLines (demoResize demoStart)
       = Some [(True, [(True, [])]), (True, [(True, [])])]
   \<and> map_option isTypingComplete demoInterrupted = Some False
   \<and> map_option typingCursor demoInterrupted = Some (2, 0, 0)
   \<and> map_option shownLines demoInterrupted
       = Some [(True, [(True, ''a'')]), (True, [(True, [])]), (True, [(True, [])])]
   \<and> map_option shownLines (demoResize demoInterrupted)
       = Some [(True, [(True, ''ab'')]), (True, [(True, ''c'')]), (True, [(True, [])])]"
  by code_simp

text \<open>
  C1 (amended). In every state the dialogue manager reaches by its constructor, \<open>update\<close>,
  \<open>resize\<close> and \<open>appendMessage\<close> called once typing is complete, \<open>resize\<close> returns, keeps the
  cursor, replaces every line by one that \<open>createDialogueLine\<close> lays out at the new width, and
  leaves the visible flag and the text of the speaker label and of every part object of every
  line as they were. After it the speaker label of every line is visible,
  every line below the cursor's line is shown to its end, the cursor's line is shown up to
  the cursor, and every line above it is shown up to \<open>(0, 0)\<close>: its parts are hidden, a
  leading text part being visible with no characters.
\<close>

theorem resize_keeps_reveal_state:
  assumes "reachableDialogue px s"
  shows "\<exists>s'. resize px width height s = Inr s'
           \<and> typingCursor s' = typingCursor s
           \<and> isTypingComplete s' = isTypingComplete s
           \<and> shownLines s' = shownLines s
           \<and> (\<forall>i<length (linesData s').
                 visible (characterText (linesData s' ! i))
                 \<and> (if i < currentLineIndex s
                    then shownUpTo (length (parts (linesData s' ! i))) 0 (linesData s' ! i)
                    else if i = currentLineIndex s
                    then shownUpTo (currentPartIndex s) (currentCharacterIndex s) (linesData s' ! i)
                    else shownUpTo 0 0 (linesData s' ! i))
                 \<and> (\<exists>h h' laidOut y p c.
                        createDialogueLine (lineManager s) px h (Some (dialogue s ! i))
                          (width - dialoguePadding (styles (lineManager s)) * 2) = Inr (h', laidOut)
                        \<and> linesData s' ! i = updateLineVisibility (laidOut\<lparr>containerY := y\<rparr>) p c))"
proof -
  note inv = reachableDialogue_consistent [OF assms]
  from resize_consistent [OF inv, of width height]
  obtain s' where res: "resize px width height s = Inr s'"
    and inv': "revealConsistent px s'"
    and cur: "currentLineIndex s' = currentLineIndex s" "currentPartIndex s' = currentPartIndex s"
      "currentCharacterIndex s' = currentCharacterIndex s" "isTypingComplete s' = isTypingComplete s"
    and len: "length (linesData s') = length (linesData s)"
    and same: "\<forall>i<length (linesData s). lineView (linesData s' ! i) = lineView (linesData s ! i)"
    and laid: "\<forall>i<length (linesData s). laidOutAt (lineManager s) px (dialogue s ! i)
                 (width - dialoguePadding (styles (lineManager s)) * 2) (linesData s' ! i)"
    by blast
  have "shownLines s' = shownLines s"
    unfolding shownLines_def
    using len same by (intro nth_equalityI) (simp_all add: revealState_lineView)
  moreover have "visible (characterText (linesData s' ! i))
                 \<and> (if i < currentLineIndex s
                    then shownUpTo (length (parts (linesData s' ! i))) 0 (linesData s' ! i)
                    else if i = currentLineIndex s
                    then shownUpTo (currentPartIndex s) (currentCharacterIndex s) (linesData s' ! i)
                    else shownUpTo 0 0 (linesData s' ! i))
                 \<and> (\<exists>h h' laidOut y p c.
                        createDialogueLine (lineManager s) px h (Some (dialogue s ! i))
                          (width - dialoguePadding (styles (lineManager s)) * 2) = Inr (h', laidOut)
                        \<and> linesData s' ! i = updateLineVisibility (laidOut\<lparr>containerY := y\<rparr>) p c)"
    if i: "i < length (linesData s')" for i
  proof -
    from laid i len have lo: "\<exists>h h' laidOut y p c.
                        createDialogueLine (lineManager s) px h (Some (dialogue s ! i))
                          (width - dialoguePadding (styles (lineManager s)) * 2) = Inr (h', laidOut)
                        \<and> linesData s' ! i = updateLineVisibility (laidOut\<lparr>containerY := y\<rparr>) p c"
      by (simp add: laidOutAt_def)
    from inv' i have "lineShownTo (freshLine (lineManager s') px (dialogue s') i)
        (cursorAt s' (length (parts (linesData s' ! i))) i) (linesData s' ! i)"
      by (simp add: revealConsistent_def)
    then have "lineShownTo (createLineObjects (lineManager s') px (Some (dialogue s' ! i)))
        (fst (cursorAt s' (length (parts (linesData s' ! i))) i),
         snd (cursorAt s' (length (parts (linesData s' ! i))) i)) (linesData s' ! i)"
      by (simp add: freshLine_def)
    from lineShownTo_shownUpTo [OF this] have "visible (characterText (linesData s' ! i))
                 \<and> (if i < currentLineIndex s
                    then shownUpTo (length (parts (linesData s' ! i))) 0 (linesData s' ! i)
                    else if i = currentLineIndex s
                    then shownUpTo (currentPartIndex s) (currentCharacterIndex s) (linesData s' ! i)
                    else shownUpTo 0 0 (linesData s' ! i))"
      by (auto simp: cursorAt_def cur split: if_splits)
    with lo show ?thesis by blast
  qed
  ultimately show ?thesis using res cur by (simp add: typingCursor_def)
qed

text \<open>
  The sample dialogue after one character has been typed: the cursor is at \<open>(0, 0, 1)\<close> and
  the first line shows "a", before and after \<open>resize\<close> to 640 by 480.
\<close>

theorem resize_keeps_reveal_state_witness:
  "reachableDialogue demoPixi (the demoTyped)
   \<and> (\<exists>s'. resize demoPixi 640 480 (the demoTyped) = Inr s'
           \<and> typingCursor s' = typingCursor (the demoTyped)
           \<and> isTypingComplete s' = isTypingComplete (the demoTyped)
           \<and> shownLines s' = shownLines (the demoTyped)
           \<and> (\<forall>i<length (linesData s').
                 visible (characterText (linesData s' ! i))
                 \<and> (if i < currentLineIndex (the demoTyped)
                    then shownUpTo (length (parts (linesData s' ! i))) 0 (linesData s' ! i)
                    else if i = currentLineIndex (the demoTyped)
                    then shownUpTo (currentPartIndex (the demoTyped))
                           (currentCharacterIndex (the demoTyped)) (linesData s' ! i)
                    else shownUpTo 0 0 (linesData s' ! i))
                 \<and> (\<exists>h h' laidOut y p c.
                        createDialogueLine (lineManager (the demoTyped)) demoPixi h
                          (Some (dialogue (the demoTyped) ! i))
                          (640 - dialoguePadding (styles (lineManager (the demoTyped))) * 2)
                          = Inr (h', laidOut)
                        \<and> linesData s' ! i = updateLineVisibility (laidOut\<lparr>containerY := y\<rparr>) p c)))
   \<and> map_option typingCursor demoTyped = Some (0, 0, 1)
   \<and> map_option shownLines demoTyped = Some [(True, [(True, ''a'')]), (True, [(True, [])])]"
proof -
  obtain s0 where s0: "newDialogueManager demoPixi demoApp demoHeap demoDialogue
                         (emojiTextures (emojiManager demoManager)) Map.empty demoStyles = Inr s0"
    using newDialogueManager_Inr by blast
  then have r0: "reachableDialogue demoPixi s0" by (rule rd_new)
  have st: "demoStart = Some s0" by (simp add: demoStart_def ok_def s0)
  have "demoTyped \<noteq> None" by code_simp
  then have "update 100 s0 = Some (the demoTyped)" by (auto simp: demoTyped_def st)
  with r0 have r: "reachableDialogue demoPixi (the demoTyped)" by (rule rd_update)
  have v: "map_option typingCursor demoTyped = Some (0, 0, 1)
     \<and> map_option shownLines demoTyped = Some [(True, [(True, ''a'')]), (True, [(True, [])])]"
    by code_simp
  from resize_keeps_reveal_state [OF r, of 640 480] r v show ?thesis by blast
qed

section \<open>Typing: revealed units per time\<close>

text \<open>
  The revealed units of a state: the characters shown by the visible text parts, and one
  unit for every visible emoji part.
\<close>

definition revealedUnits :: "DialoguePart \<times> DisplayObject \<Rightarrow> nat" where
  "revealedUnits po =
     (case po of (part, obj) \<Rightarrow>
        if \<not> visible obj then 0
        else if type part = PText then length (objText obj) else 1)"

definition revealedInLine :: "LineRenderData \<Rightarrow> nat" where
  "revealedInLine lineData = sum_list (map revealedUnits (zip (parts lineData) (partObjects lineData)))"

definition revealedCount :: "DialogueManager \<Rightarrow> nat" where
  "revealedCount s = sum_list (map revealedInLine (linesData s))"

text \<open>A sequence of \<open>update\<close> calls.\<close>

fun updates :: "real list \<Rightarrow> DialogueManager \<Rightarrow> DialogueManager option" where
  "updates [] s = Some s"
| "updates (deltaMS # rest) s =
     (case update deltaMS s of None \<Rightarrow> None | Some s' \<Rightarrow> updates rest s')"

subsection \<open>A step never takes a revealed unit back\<close>

definition unitsAt :: "nat \<Rightarrow> nat \<Rightarrow> nat \<Rightarrow> DialoguePart \<Rightarrow> nat" where
  "unitsAt p c j part =
     (if j < p then (if type part = PText then length (content part) else 1)
      else if j = p then
        (if type part = PText then min c (length (content part)) else if c > 0 then 1 else 0)
      else 0)"

lemma partShownUpTo_units:
  "partShownUpTo p c j part obj \<Longrightarrow> revealedUnits (part, obj) = unitsAt p c j part"
  by (auto simp: partShownUpTo_def revealedUnits_def unitsAt_def min_def split: if_splits)

lemma unitsAt_mono:
  "p < p' \<or> (p = p' \<and> c \<le> c') \<Longrightarrow> unitsAt p c j part \<le> unitsAt p' c' j part"
  by (auto simp: unitsAt_def)

lemma map_zip_index:
  "length xs = length ys \<Longrightarrow> map f (zip xs ys) = map (\<lambda>j. f (xs ! j, ys ! j)) [0..<length xs]"
  by (intro nth_equalityI) simp_all

lemma shownUpTo_units:
  assumes "shownUpTo p c lineData"
  shows "revealedInLine lineData =
           sum_list (map (\<lambda>j. unitsAt p c j (parts lineData ! j)) [0..<length (parts lineData)])"
proof -
  from assms have len: "length (parts lineData) = length (partObjects lineData)"
    and each: "\<forall>j<length (parts lineData).
                 partShownUpTo p c j (parts lineData ! j) (partObjects lineData ! j)"
    by (simp_all add: shownUpTo_def)
  have "map revealedUnits (zip (parts lineData) (partObjects lineData)) =
        map (\<lambda>j. unitsAt p c j (parts lineData ! j)) [0..<length (parts lineData)]"
    unfolding map_zip_index [OF len]
    using each by (simp add: partShownUpTo_units)
  then show ?thesis by (simp add: revealedInLine_def)
qed

lemma lineShownTo_units_mono:
  assumes "lineShownTo (createLineObjects m px line) (p, c) lineData"
    and "p < p' \<or> (p = p' \<and> c \<le> c')"
  shows "revealedInLine lineData \<le> revealedInLine (updateLineVisibility lineData p' c')"
proof -
  from assms(2) have "p \<le> p'" by auto
  from lineShownTo_show [OF assms(1) this, of c']
  have "shownUpTo p' c' (updateLineVisibility lineData p' c')"
    using lineShownTo_shownUpTo by blast
  from shownUpTo_units [OF this]
  have after: "revealedInLine (updateLineVisibility lineData p' c') =
      sum_list (map (\<lambda>j. unitsAt p' c' j (parts lineData ! j)) [0..<length (parts lineData)])"
    by simp
  from lineShownTo_shownUpTo [OF assms(1)] have "shownUpTo p c lineData" by simp
  from shownUpTo_units [OF this] show ?thesis
    unfolding after by (simp add: sum_list_mono unitsAt_mono [OF assms(2)])
qed

lemma sum_list_update_mono:
  fixes f :: "'a \<Rightarrow> nat"
  shows "i < length xs \<Longrightarrow> f (xs ! i) \<le> f y \<Longrightarrow>
         sum_list (map f xs) \<le> sum_list (map f (xs[i := y]))"
proof (induction xs arbitrary: i)
  case Nil
  then show ?case by simp
next
  case (Cons x xs)
  then show ?case by (cases i) (simp_all add: add_le_mono)
qed

lemma revealedCount_frame [simp]:
  "revealedCount (nextLine s) = revealedCount s"
  "revealedCount (s\<lparr>isTypingComplete := b\<rparr>) = revealedCount s"
  by (simp_all add: revealedCount_def nextLine_def)

lemma count_show:
  assumes "revealConsistent px s" and "currentLineIndex s < length (linesData s)"
    and "currentPartIndex s < p' \<or> (currentPartIndex s = p' \<and> currentCharacterIndex s \<le> c')"
  shows "revealedCount s \<le>
         revealedCount (showLine (currentLineIndex s) (linesData s ! currentLineIndex s)
                          (s\<lparr>currentPartIndex := p', currentCharacterIndex := c'\<rparr>))"
proof -
  let ?cur = "currentLineIndex s"
  from assms(1,2) have "lineShownTo (freshLine (lineManager s) px (dialogue s) ?cur)
      (cursorAt s (length (parts (linesData s ! ?cur))) ?cur) (linesData s ! ?cur)"
    by (simp add: revealConsistent_def)
  then have "lineShownTo (createLineObjects (lineManager s) px (Some (dialogue s ! ?cur)))
      (currentPartIndex s, currentCharacterIndex s) (linesData s ! ?cur)"
    by (simp add: freshLine_def cursorAt_def)
  from lineShownTo_units_mono [OF this assms(3)]
  have "revealedInLine (linesData s ! ?cur)
          \<le> revealedInLine (updateLineVisibility (linesData s ! ?cur) p' c')" .
  from sum_list_update_mono [of ?cur "linesData s" revealedInLine, OF assms(2) this]
  show ?thesis by (simp add: revealedCount_def showLine_def)
qed

lemma stepCursor_forward:
  "\<exists>p' c'. stepCursor part s = s\<lparr>currentPartIndex := p', currentCharacterIndex := c'\<rparr>
           \<and> (currentPartIndex s < p' \<or> (currentPartIndex s = p' \<and> currentCharacterIndex s \<le> c'))"
proof -
  have same: "\<exists>p' c'. s = s\<lparr>currentPartIndex := p', currentCharacterIndex := c'\<rparr>
      \<and> (currentPartIndex s < p' \<or> (currentPartIndex s = p' \<and> currentCharacterIndex s \<le> c'))"
    by (rule exI [of _ "currentPartIndex s"], rule exI [of _ "currentCharacterIndex s"]) simp
  have chr: "\<exists>p' c'. s\<lparr>currentCharacterIndex := Suc (currentCharacterIndex s)\<rparr>
       = s\<lparr>currentPartIndex := p', currentCharacterIndex := c'\<rparr>
      \<and> (currentPartIndex s < p' \<or> (currentPartIndex s = p' \<and> currentCharacterIndex s \<le> c'))"
    by (rule exI [of _ "currentPartIndex s"], rule exI [of _ "Suc (currentCharacterIndex s)"]) simp
  have nxt: "\<exists>p' c'. s\<lparr>currentCharacterIndex := c, currentPartIndex := Suc (currentPartIndex s)\<rparr>
       = s\<lparr>currentPartIndex := p', currentCharacterIndex := c'\<rparr>
      \<and> (currentPartIndex s < p' \<or> (currentPartIndex s = p' \<and> currentCharacterIndex s \<le> c'))" for c
    by (rule exI [of _ "Suc (currentPartIndex s)"], rule exI [of _ c]) simp
  show ?thesis
    using same chr nxt by (simp add: stepCursor_def Let_def)
qed

lemma advanceTyping_count:
  assumes "revealConsistent px s"
  shows "revealedCount s \<le> revealedCount (advanceTyping s)"
proof (cases "isTypingComplete s \<or> \<not> currentLineIndex s < length (linesData s)")
  case True
  then show ?thesis by (auto simp: advanceTyping_def nthOpt_def)
next
  case False
  then have incomplete: "\<not> isTypingComplete s" and line: "currentLineIndex s < length (linesData s)"
    by simp_all
  let ?L = "linesData s ! currentLineIndex s"
  show ?thesis
  proof (cases "currentPartIndex s < length (parts ?L)")
    case False
    then have nl: "revealConsistent px (nextLine s)"
      using consistent_nextLine [OF assms] by simp
    have cur: "currentLineIndex (nextLine s) = Suc (currentLineIndex s)"
      "linesData (nextLine s) = linesData s" "currentPartIndex (nextLine s) = 0"
      "currentCharacterIndex (nextLine s) = 0"
      by (simp_all add: nextLine_def)
    have eq: "advanceTyping s =
        (if length (linesData s) \<le> Suc (currentLineIndex s)
         then (nextLine s)\<lparr>isTypingComplete := True\<rparr>
         else showLine (Suc (currentLineIndex s)) (linesData s ! Suc (currentLineIndex s)) (nextLine s))"
      using incomplete line False by (simp add: advanceTyping_def nthOpt_def Let_def cur)
    show ?thesis
    proof (cases "length (linesData s) \<le> Suc (currentLineIndex s)")
      case True
      then show ?thesis by (simp add: eq)
    next
      case False
      have "nextLine s = (nextLine s)\<lparr>currentPartIndex := 0, currentCharacterIndex := 0\<rparr>"
        by (simp add: nextLine_def)
      with count_show [OF nl, of 0 0] False show ?thesis
        by (simp add: eq cur)
    qed
  next
    case True
    let ?part = "parts ?L ! currentPartIndex s"
    obtain p' c' where
      mv: "stepCursor ?part s = s\<lparr>currentPartIndex := p', currentCharacterIndex := c'\<rparr>"
      and fw: "currentPartIndex s < p' \<or> (currentPartIndex s = p' \<and> currentCharacterIndex s \<le> c')"
      using stepCursor_forward by blast
    let ?s2 = "showLine (currentLineIndex s) ?L (s\<lparr>currentPartIndex := p', currentCharacterIndex := c'\<rparr>)"
    have "linesData (advanceTyping s) = linesData ?s2"
      using incomplete line True
      by (simp add: advanceTyping_def nthOpt_def Let_def mv) (simp add: nextLine_def showLine_def)
    then have "revealedCount (advanceTyping s) = revealedCount ?s2"
      by (simp add: revealedCount_def)
    with count_show [OF assms line fw] show ?thesis by simp
  qed
qed

subsection \<open>From tick to tick\<close>

lemma revealedCount_acc [simp]:
  "revealedCount (s\<lparr>lineRevealAccumulator := a\<rparr>) = revealedCount s"
  "revealedCount (s\<lparr>scrollManager := sm\<rparr>) = revealedCount s"
  by (simp_all add: revealedCount_def)

lemma typingLoop_count:
  assumes "typingLoop crt s = Some s'" and "revealConsistent px s"
  shows "revealedCount s \<le> revealedCount s'"
proof -
  have "revealConsistent px s \<longrightarrow> revealedCount s \<le> revealedCount s'"
  proof (rule typingLoop.raw_induct
      [where P = "\<lambda>c a b. revealConsistent px a \<longrightarrow> revealedCount a \<le> revealedCount b", OF _ assms(1)])
    fix loop :: "real \<Rightarrow> DialogueManager \<Rightarrow> DialogueManager option" and c a b
    assume IH: "\<And>c a b. loop c a = Some b \<Longrightarrow>
                  revealConsistent px a \<longrightarrow> revealedCount a \<le> revealedCount b"
      and body: "(if c \<le> lineRevealAccumulator a
                  then loop c (advanceTyping (a\<lparr>lineRevealAccumulator := lineRevealAccumulator a - c\<rparr>))
                  else Some a) = Some b"
    show "revealConsistent px a \<longrightarrow> revealedCount a \<le> revealedCount b"
    proof (cases "c \<le> lineRevealAccumulator a")
      case True
      let ?a1 = "a\<lparr>lineRevealAccumulator := lineRevealAccumulator a - c\<rparr>"
      from True body have "loop c (advanceTyping ?a1) = Some b" by simp
      from IH [OF this]
      have step: "revealConsistent px (advanceTyping ?a1) \<longrightarrow>
                    revealedCount (advanceTyping ?a1) \<le> revealedCount b" .
      show ?thesis
      proof
        assume "revealConsistent px a"
        then have c1: "revealConsistent px ?a1" by simp
        from advanceTyping_count [OF c1] advanceTyping_consistent [OF c1] step
        show "revealedCount a \<le> revealedCount b" by simp
      qed
    next
      case False
      with body show ?thesis by simp
    qed
  qed
  with assms(2) show ?thesis by simp
qed

lemma update_count:
  assumes "update deltaMS s = Some s'" and "revealConsistent px s"
  shows "revealedCount s \<le> revealedCount s'"
proof (cases "isTypingComplete s")
  case True
  with assms show ?thesis by (auto simp: update_def)
next
  case False
  let ?s1 = "s\<lparr>lineRevealAccumulator := lineRevealAccumulator s + deltaMS\<rparr>"
  let ?speed = "typingSpeed (styles (lineManager s))"
  define r where "r = (if ?speed = 0 then Some ?s1 else typingLoop (1000 / ?speed) ?s1)"
  have u: "update deltaMS s =
      (case r of None \<Rightarrow> None
       | Some s2 \<Rightarrow> Some (s2\<lparr>scrollManager :=
                (if \<not> isTypingComplete s2 then scrollToBottom (updateScroll deltaMS (scrollManager s2))
                 else updateScroll deltaMS (scrollManager s2))\<rparr>))"
    using False by (simp add: update_def Let_def r_def split: option.splits)
  with assms(1) obtain s2 where s2: "r = Some s2"
    and s': "s' = s2\<lparr>scrollManager :=
                (if \<not> isTypingComplete s2 then scrollToBottom (updateScroll deltaMS (scrollManager s2))
                 else updateScroll deltaMS (scrollManager s2))\<rparr>"
    by (cases r) auto
  have "revealedCount s \<le> revealedCount s2"
  proof (cases "?speed = 0")
    case True
    with s2 show ?thesis by (auto simp: r_def)
  next
    case False
    with s2 have "typingLoop (1000 / ?speed) ?s1 = Some s2" by (simp add: r_def)
    from typingLoop_count [OF this] assms(2) show ?thesis by simp
  qed
  then show ?thesis by (simp add: s')
qed

text \<open>A line that starts with an emoji.\<close>

definition demoEmojiDialogue :: "DialogueLine list" where
  "demoEmojiDialogue = [\<lparr>name = Some ''A'', text' = Some '':smile:hi''\<rparr>]"

definition demoEmojiStart :: "DialogueManager option" where
  "demoEmojiStart = ok (newDialogueManager demoPixi demoApp demoHeap demoEmojiDialogue
                          (emojiTextures (emojiManager demoManager)) Map.empty demoStyles)"

text \<open>
  C4. \<open>typingSpeed\<close> is documented as characters per second, and \<open>update\<close> calls
  \<open>advanceTyping\<close> once for every \<open>1000 / typingSpeed\<close> ms. But a call of \<open>advanceTyping\<close>
  that finds the cursor past the last character of a text part reveals nothing: it moves
  the cursor to the next part or line. And a call on an emoji part leaves the character
  index 1 for the part that follows, so that the first character of a following text is
  shown with the emoji.

  The sample dialogue ("ab", then "c") at 10 characters per second and ticks of 100 ms:
  after two ticks "ab" is shown; after three ticks the count is still 2, the cursor is on
  the second line, typing is not complete, and \<open>\<lfloor>10 * 300 / 1000\<rfloor> = 3\<close>; after four ticks
  the count is 3 for \<open>\<lfloor>10 * 400 / 1000\<rfloor> = 4\<close>. A line ":smile:hi" shows the emoji and "h"
  after one tick, two units for \<open>\<lfloor>10 * 100 / 1000\<rfloor> = 1\<close>. Every number in these runs is an
  integer, so the source's doubles compute the same.
\<close>

theorem revealed_count_is_not_the_floor:
  "map_option revealedCount (Option.bind demoStart (updates [100, 100])) = Some 2
   \<and> map_option shownLines (Option.bind demoStart (updates [100, 100]))
       = Some [(True, [(True, ''ab'')]), (True, [(True, [])])]
   \<and> map_option revealedCount (Option.bind demoStart (updates [100, 100, 100])) = Some 2
   \<and> map_option typingCursor (Option.bind demoStart (updates [100, 100, 100])) = Some (1, 0, 0)
   \<and> map_option isTypingComplete (Option.bind demoStart (updates [100, 100, 100])) = Some False
   \<and> map_option lineRevealAccumulator (Option.bind demoStart (updates [100, 100, 100])) = Some 0
   \<and> \<lfloor>typingSpeed demoStyles * (100 + 100 + 100) / 1000\<rfloor> = 3
   \<and> map_option revealedCount (Option.bind demoStart (updates [100, 100, 100, 100])) = Some 3
   \<and> map_option isTypingComplete (Option.bind demoStart (updates [100, 100, 100, 100])) = Some False
   \<and> \<lfloor>typingSpeed demoStyles * (100 + 100 + 100 + 100) / 1000\<rfloor> = 4
   \<and> map_option revealedCount (Option.bind demoEmojiStart (updates [100])) = Some 2
   \<and> map_option shownLines (Option.bind demoEmojiStart (updates [100]))
       = Some [(True, [(True, []), (True, ''h'')])]
   \<and> map_option isTypingComplete (Option.bind demoEmojiStart (updates [100])) = Some False
   \<and> \<lfloor>typingSpeed demoStyles * 100 / 1000\<rfloor> = 1
   \<and> 1000 / typingSpeed demoStyles = 100"
  by code_simp

end
